theory Spec2Isabelle
  imports Main
begin

section \<open>Strings\<close>

text \<open>
  A JavaScript string is a sequence of code units; it is modelled as a \<open>string\<close>, one
  \<open>char\<close> for one code unit. The program compares strings only with ASCII constants.
\<close>

definition startsWith :: "string \<Rightarrow> string \<Rightarrow> bool" where
  \<comment> \<open>\<open>str.startsWith(search)\<close>\<close>
  "startsWith str search = (take (length search) str = search)"

fun firstIndexOf :: "string \<Rightarrow> string \<Rightarrow> (string \<times> string) option" where
  \<comment> \<open>the first occurrence of \<open>search\<close> in the string: the text before it and the text after it\<close>
  "firstIndexOf search [] = (if search = [] then Some ([], []) else None)"
| "firstIndexOf search (c # cs) =
     (if startsWith (c # cs) search then Some ([], drop (length search) (c # cs))
      else (case firstIndexOf search cs of
              None \<Rightarrow> None
            | Some (pre, post) \<Rightarrow> Some (c # pre, post)))"

fun getSubstitution :: "string \<Rightarrow> string \<Rightarrow> string \<Rightarrow> string \<Rightarrow> string" where
  \<comment> \<open>The replacement text of \<open>String.prototype.replace\<close> for a string pattern: in the
      template, \<open>$$\<close> is a dollar sign, \<open>$&\<close> the matched text, \<open>$`\<close> the text before the
      match and \<open>$'\<close> the text after it. A string pattern has no capture groups, so
      \<open>$1\<close>, \<open>$<\<close> and every other character after a dollar sign stay as they are.\<close>
  "getSubstitution matched pre post [] = []"
| "getSubstitution matched pre post [c] = [c]"
| "getSubstitution matched pre post (c # d # r) =
     (if c = CHR ''$'' \<and> d = CHR ''$'' then CHR ''$'' # getSubstitution matched pre post r
      else if c = CHR ''$'' \<and> d = CHR ''&'' then matched @ getSubstitution matched pre post r
      else if c = CHR ''$'' \<and> d = CHR 0x60 then pre @ getSubstitution matched pre post r
      else if c = CHR ''$'' \<and> d = CHR 0x27 then post @ getSubstitution matched pre post r
      else c # getSubstitution matched pre post (d # r))"

definition js_replace :: "string \<Rightarrow> string \<Rightarrow> string \<Rightarrow> string" where
  \<comment> \<open>\<open>str.replace(search, template)\<close> with a string pattern: only the first occurrence\<close>
  "js_replace str search template =
     (case firstIndexOf search str of
        None \<Rightarrow> str
      | Some (pre, post) \<Rightarrow> pre @ getSubstitution search pre post template @ post)"

fun split_on :: "char \<Rightarrow> string \<Rightarrow> string list" where
  \<comment> \<open>\<open>str.split(d)\<close> for a one-character separator\<close>
  "split_on d [] = [[]]"
| "split_on d (c # cs) =
     (if c = d then [] # split_on d cs
      else (case split_on d cs of
              [] \<Rightarrow> [[c]]
            | w # ws \<Rightarrow> (c # w) # ws))"

fun string_of_nat :: "nat \<Rightarrow> string" where
  \<comment> \<open>the decimal text of an array index\<close>
  "string_of_nat n =
     (if n < 10 then [''0123456789'' ! n]
      else string_of_nat (n div 10) @ [''0123456789'' ! (n mod 10)])"

declare string_of_nat.simps [simp del]

section \<open>Values and terms\<close>

datatype error = TypeError

text \<open>
  The values the store holds and is queried with: the primitive values and the two kinds
  of term object. \<open>NamedNode u\<close> is the object \<open>{ uri: u, value: u, termType: 'NamedNode' }\<close>
  that \<open>sym\<close> builds; \<open>LiteralTerm v\<close> is the object \<open>{ value: v, termType: 'Literal' }\<close>
  that \<open>literal\<close> builds, and also the object with \<open>uri: undefined\<close> that \<open>any\<close> and
  \<open>each\<close> wrap a raw scalar in (its \<open>uri\<close> reads as \<open>undefined\<close> either way).
  A number is held as the text \<open>String\<close> gives it: the program stringifies numbers,
  tests them for truthiness (\<open>0\<close>, \<open>-0\<close> and \<open>NaN\<close> are falsy; their texts are \<open>0\<close> and
  \<open>NaN\<close>) and compares them with \<open>===\<close>, and does nothing else with them.
\<close>

datatype val =
    Undefined
  | Null
  | Bool bool
  | Num string
  | Str string
  | NamedNode string
  | LiteralTerm string

definition RDF_TYPE :: string where
  "RDF_TYPE = ''http://www.w3.org/1999/02/22-rdf-syntax-ns#type''"

definition sym_node :: "string \<Rightarrow> val" where
  \<comment> \<open>\<open>sym(uri)\<close>\<close>
  "sym_node uri = NamedNode uri"

definition Namespace :: "string \<Rightarrow> string \<Rightarrow> val" where
  "Namespace base name = sym_node (base @ name)"

fun js_String :: "val \<Rightarrow> string" where
  \<comment> \<open>\<open>String(val)\<close>\<close>
  "js_String Undefined = ''undefined''"
| "js_String Null = ''null''"
| "js_String (Bool b) = (if b then ''true'' else ''false'')"
| "js_String (Num t) = t"
| "js_String (Str x) = x"
| "js_String (NamedNode u) = ''[object Object]''"
| "js_String (LiteralTerm v) = ''[object Object]''"

definition literal :: "val \<Rightarrow> val" where
  \<comment> \<open>\<open>literal(val)\<close>\<close>
  "literal v = LiteralTerm (js_String v)"

fun truthy :: "val \<Rightarrow> bool" where
  "truthy Undefined = False"
| "truthy Null = False"
| "truthy (Bool b) = b"
| "truthy (Num t) = (t \<noteq> ''0'' \<and> t \<noteq> ''NaN'')"
| "truthy (Str x) = (x \<noteq> [])"
| "truthy (NamedNode u) = True"
| "truthy (LiteralTerm v) = True"

definition js_or :: "val \<Rightarrow> val \<Rightarrow> val" where
  \<comment> \<open>\<open>a || b\<close>\<close>
  "js_or a b = (if truthy a then a else b)"

fun is_object :: "val \<Rightarrow> bool" where
  \<comment> \<open>\<open>typeof v === 'object' && v !== null\<close>\<close>
  "is_object (NamedNode u) = True"
| "is_object (LiteralTerm v) = True"
| "is_object v = False"

fun typeof_object :: "val \<Rightarrow> bool" where
  \<comment> \<open>\<open>typeof v === 'object'\<close>, which holds of \<open>null\<close> too\<close>
  "typeof_object Null = True"
| "typeof_object v = is_object v"

fun get_uri :: "val \<Rightarrow> error + val" where
  \<comment> \<open>\<open>v.uri\<close>: reading a property of \<open>undefined\<close> or \<open>null\<close> raises; a primitive has no
      such property\<close>
  "get_uri Undefined = Inl TypeError"
| "get_uri Null = Inl TypeError"
| "get_uri (NamedNode u) = Inr (Str u)"
| "get_uri v = Inr Undefined"

fun get_value :: "val \<Rightarrow> error + val" where
  \<comment> \<open>\<open>v.value\<close>\<close>
  "get_value Undefined = Inl TypeError"
| "get_value Null = Inl TypeError"
| "get_value (NamedNode u) = Inr (Str u)"
| "get_value (LiteralTerm v) = Inr (Str v)"
| "get_value v = Inr Undefined"

fun strict_eq :: "val \<Rightarrow> val \<Rightarrow> bool" where
  \<comment> \<open>\<open>a === b\<close> where one side at least is a primitive, as in every comparison of this
      program (an object is never equal to a primitive); \<open>NaN\<close> is not equal to itself\<close>
  "strict_eq Undefined Undefined = True"
| "strict_eq Null Null = True"
| "strict_eq (Bool a) (Bool b) = (a = b)"
| "strict_eq (Num a) (Num b) = (a = b \<and> a \<noteq> ''NaN'')"
| "strict_eq (Str a) (Str b) = (a = b)"
| "strict_eq a b = False"

section \<open>The triple store\<close>

datatype triple = Triple (t_s: val) (t_p: val) (t_o: val)

type_synonym store = "triple list"

definition normalize_uri :: "val \<Rightarrow> val" where
  \<comment> \<open>\<open>normalize(uri)\<close>\<close>
  "normalize_uri uri =
     (case uri of
        Str u \<Rightarrow> Str (js_replace u ''https://schema.org/'' ''http://schema.org/'')
      | _ \<Rightarrow> uri)"

definition uri_or_value :: "val \<Rightarrow> val" where
  \<comment> \<open>\<open>typeof a === 'object' && a !== null ? a.uri || a.value : a\<close>\<close>
  "uri_or_value a =
     (if is_object a then
        (case (get_uri a, get_value a) of
           (Inr u, Inr v) \<Rightarrow> js_or u v
         | _ \<Rightarrow> Undefined)
      else a)"

definition matchUri :: "val \<Rightarrow> val \<Rightarrow> bool" where
  "matchUri a b = strict_eq (normalize_uri (uri_or_value a)) (normalize_uri (uri_or_value b))"

definition add :: "store \<Rightarrow> val \<Rightarrow> val \<Rightarrow> val \<Rightarrow> store" where
  \<comment> \<open>\<open>triples.push({ s, p, o })\<close>\<close>
  "add triples s p ob = triples @ [Triple s p ob]"

definition object_text :: "val \<Rightarrow> val" where
  \<comment> \<open>the value \<open>anyValue\<close> returns for the object of the matching triple\<close>
  "object_text obj =
     (if is_object obj then
        (case (get_value obj, get_uri obj) of
           (Inr v, Inr u) \<Rightarrow> js_or v (js_or u Null)
         | _ \<Rightarrow> Null)
      else if obj \<noteq> Null \<and> obj \<noteq> Undefined then Str (js_String obj)
      else Null)"

fun anyValue :: "store \<Rightarrow> val \<Rightarrow> val \<Rightarrow> val" where
  "anyValue [] s p = Null"
| "anyValue (t # triples) s p =
     (if matchUri (t_s t) s \<and> matchUri (t_p t) p then object_text (t_o t)
      else anyValue triples s p)"

definition object_node :: "val \<Rightarrow> val" where
  \<comment> \<open>the value \<open>any\<close> returns for the object of the matching triple\<close>
  "object_node obj =
     (if is_object obj then obj
      else if obj \<noteq> Null \<and> obj \<noteq> Undefined then LiteralTerm (js_String obj)
      else Null)"

fun any :: "store \<Rightarrow> val \<Rightarrow> val \<Rightarrow> val" where
  "any [] s p = Null"
| "any (t # triples) s p =
     (if matchUri (t_s t) s \<and> matchUri (t_p t) p then object_node (t_o t)
      else any triples s p)"

fun each_loop :: "store \<Rightarrow> val \<Rightarrow> val \<Rightarrow> val list \<Rightarrow> val list" where
  "each_loop [] s p results = results"
| "each_loop (t # triples) s p results =
     (if matchUri (t_s t) s \<and> matchUri (t_p t) p then
        (if is_object (t_o t) then each_loop triples s p (results @ [t_o t])
         else if t_o t \<noteq> Null \<and> t_o t \<noteq> Undefined then
           each_loop triples s p (results @ [LiteralTerm (js_String (t_o t))])
         else each_loop triples s p results)
      else each_loop triples s p results)"

definition each :: "store \<Rightarrow> val \<Rightarrow> val \<Rightarrow> val list" where
  "each triples s p = each_loop triples s p []"

text \<open>
  The result object of \<open>findTypeURIs\<close> is a map from property names to values. Its
  prototype is \<open>Object.prototype\<close>, so an assignment to the name \<open>__proto__\<close> calls the
  inherited setter, which ignores a value that is not an object: no property is created.
\<close>

definition set_property :: "(string \<rightharpoonup> bool) \<Rightarrow> string \<Rightarrow> bool \<Rightarrow> (string \<rightharpoonup> bool)" where
  \<comment> \<open>\<open>result[name] = b\<close>\<close>
  "set_property result name b = (if name = ''__proto__'' then result else result(name \<mapsto> b))"

definition predicate_is_type :: "val \<Rightarrow> error + bool" where
  \<comment> \<open>\<open>normalize(t.p.uri || t.p) === RDF_TYPE\<close>\<close>
  "predicate_is_type pr =
     (case get_uri pr of
        Inl e \<Rightarrow> Inl e
      | Inr u \<Rightarrow> Inr (strict_eq (normalize_uri (js_or u pr)) (Str RDF_TYPE)))"

definition index_type :: "val \<Rightarrow> (string \<rightharpoonup> bool) \<Rightarrow> error + (string \<rightharpoonup> bool)" where
  \<comment> \<open>the body of the loop of \<open>findTypeURIs\<close> for the object of a type triple\<close>
  "index_type obj result =
     (case (if typeof_object obj then get_uri obj else Inr obj) of
        Inl e \<Rightarrow> Inl e
      | Inr uri \<Rightarrow>
          (if truthy uri then
             (case uri of
                Str u \<Rightarrow>
                  (let result1 = set_property result u True in
                   if startsWith u ''http://schema.org/'' then
                     Inr (set_property result1 (js_replace u ''http://'' ''https://'') True)
                   else if startsWith u ''https://schema.org/'' then
                     Inr (set_property result1 (js_replace u ''https://'' ''http://'') True)
                   else Inr result1)
              | _ \<Rightarrow> Inl TypeError)
           else Inr result))"

fun findTypeURIs_loop :: "store \<Rightarrow> val \<Rightarrow> (string \<rightharpoonup> bool) \<Rightarrow> error + (string \<rightharpoonup> bool)" where
  "findTypeURIs_loop [] s result = Inr result"
| "findTypeURIs_loop (t # triples) s result =
     (if matchUri (t_s t) s then
        (case predicate_is_type (t_p t) of
           Inl e \<Rightarrow> Inl e
         | Inr False \<Rightarrow> findTypeURIs_loop triples s result
         | Inr True \<Rightarrow>
             (case index_type (t_o t) result of
                Inl e \<Rightarrow> Inl e
              | Inr result' \<Rightarrow> findTypeURIs_loop triples s result'))
      else findTypeURIs_loop triples s result)"

definition findTypeURIs :: "store \<Rightarrow> val \<Rightarrow> error + (string \<rightharpoonup> bool)" where
  "findTypeURIs triples s = findTypeURIs_loop triples s Map.empty"

section \<open>JSON documents\<close>

text \<open>
  A parsed JSON value. \<open>JObj es\<close> holds the list \<open>Object.entries\<close> gives for the object:
  its own properties in enumeration order, each key once. A number is held as the text
  \<open>String\<close> gives it, as in \<open>val\<close>.
\<close>

datatype json =
    JNull
  | JBool bool
  | JNum string
  | JStr string
  | JArr "json list"
  | JObj "(string \<times> json) list"

fun json_truthy :: "json \<Rightarrow> bool" where
  "json_truthy JNull = False"
| "json_truthy (JBool b) = b"
| "json_truthy (JNum t) = (t \<noteq> ''0'' \<and> t \<noteq> ''NaN'')"
| "json_truthy (JStr x) = (x \<noteq> [])"
| "json_truthy (JArr items) = True"
| "json_truthy (JObj es) = True"

fun truthy_prop :: "json option \<Rightarrow> bool" where
  \<comment> \<open>the truthiness of a property that was read; \<open>None\<close> is \<open>undefined\<close>\<close>
  "truthy_prop None = False"
| "truthy_prop (Some v) = json_truthy v"

fun json_is_object :: "json \<Rightarrow> bool" where
  \<comment> \<open>\<open>typeof v === 'object' && v !== null\<close>: arrays are objects too\<close>
  "json_is_object (JArr items) = True"
| "json_is_object (JObj es) = True"
| "json_is_object v = False"

fun own_prop :: "json \<Rightarrow> string \<Rightarrow> json option" where
  \<comment> \<open>\<open>v[name]\<close> of a value other than \<open>null\<close>, for the names \<open>@context\<close>, \<open>@id\<close> and
      \<open>@type\<close> the translator reads: no prototype has them, and they are no array index\<close>
  "own_prop (JObj es) name = map_of es name"
| "own_prop v name = None"

definition get_prop :: "json \<Rightarrow> string \<Rightarrow> error + json option" where
  \<comment> \<open>\<open>v[name]\<close>: reading a property of \<open>null\<close> raises\<close>
  "get_prop v name = (if v = JNull then Inl TypeError else Inr (own_prop v name))"

fun scalar_val :: "json \<Rightarrow> val" where
  \<comment> \<open>a JSON scalar as the store holds it; the translator passes no array or object here\<close>
  "scalar_val JNull = Null"
| "scalar_val (JBool b) = Bool b"
| "scalar_val (JNum t) = Num t"
| "scalar_val (JStr x) = Str x"
| "scalar_val v = Undefined"

fun json_toString :: "json \<Rightarrow> error + string"
and join_items :: "json list \<Rightarrow> error + string" where
  \<comment> \<open>The text of a value in a string concatenation. An array is joined with commas, a
      \<open>null\<close> element giving the empty text; an object is \<open>[object Object]\<close>, unless it
      has an own property \<open>toString\<close>, which is JSON data and cannot be called: then
      the conversion raises.\<close>
  "json_toString JNull = Inr ''null''"
| "json_toString (JBool b) = Inr (if b then ''true'' else ''false'')"
| "json_toString (JNum t) = Inr t"
| "json_toString (JStr x) = Inr x"
| "json_toString (JArr items) = join_items items"
| "json_toString (JObj es) =
     (if ''toString'' \<in> fst ` set es then Inl TypeError else Inr ''[object Object]'')"
| "join_items [] = Inr []"
| "join_items (x # xs) =
     (case (if x = JNull then Inr [] else json_toString x) of
        Inl e \<Rightarrow> Inl e
      | Inr a \<Rightarrow>
          (if xs = [] then Inr a
           else (case join_items xs of
                   Inl e \<Rightarrow> Inl e
                 | Inr b \<Rightarrow> Inr (a @ '','' @ b))))"

fun entries :: "json \<Rightarrow> (string \<times> json) list" where
  \<comment> \<open>\<open>Object.entries(node)\<close>: the indexed elements of an array, the indexed characters of
      a string, nothing for a number or a boolean. The translator reads a property of
      the node first, which raises on \<open>null\<close>, so \<open>null\<close> never comes here.\<close>
  "entries (JObj es) = es"
| "entries (JArr items) = map (\<lambda>(i, x). (string_of_nat i, x)) (enumerate 0 items)"
| "entries (JStr x) = map (\<lambda>(i, c). (string_of_nat i, JStr [c])) (enumerate 0 x)"
| "entries v = []"

section \<open>The JSON-LD translator\<close>

type_synonym "context" = "(string \<times> string) list"

fun put_own :: "context \<Rightarrow> string \<Rightarrow> string \<Rightarrow> context" where
  \<comment> \<open>an own property is overwritten in place, or created after the others\<close>
  "put_own [] k v = [(k, v)]"
| "put_own ((k', v') # ctx) k v =
     (if k' = k then (k, v) # ctx else (k', v') # put_own ctx k v)"

definition ctx_assign :: "context \<Rightarrow> string \<Rightarrow> string \<Rightarrow> context" where
  \<comment> \<open>\<open>ctx[k] = v\<close> on an ordinary object: the name \<open>__proto__\<close> goes to the inherited
      setter, which ignores a string\<close>
  "ctx_assign ctx k v = (if k = ''__proto__'' then ctx else put_own ctx k v)"

definition build_context :: "json \<Rightarrow> error + context" where
  \<comment> \<open>the context map of \<open>parseJsonLdToStore\<close>\<close>
  "build_context jsonld =
     (case get_prop jsonld ''@context'' of
        Inl e \<Rightarrow> Inl e
      | Inr c \<Rightarrow>
          (if truthy_prop c then
             (case c of
                Some (JObj raw) \<Rightarrow>
                  Inr (fold (\<lambda>(k, v) ctx. case v of JStr x \<Rightarrow> ctx_assign ctx k x | _ \<Rightarrow> ctx) raw [])
              | _ \<Rightarrow> Inr [])
           else Inr []))"

fun resolve_loop :: "string \<Rightarrow> context \<Rightarrow> string" where
  \<comment> \<open>the loop of \<open>resolvePrefix\<close> and the two returns after it\<close>
  "resolve_loop key [] =
     (if startsWith key ''http://'' \<or> startsWith key ''https://'' then key else key)"
| "resolve_loop key ((prefix, base) # ctx) =
     (if startsWith key (prefix @ '':'') then js_replace key (prefix @ '':'') base
      else resolve_loop key ctx)"

definition resolvePrefix :: "string \<Rightarrow> context \<Rightarrow> string option" where
  \<comment> \<open>\<open>None\<close> is the \<open>null\<close> the function returns for a key that starts with \<open>@\<close>\<close>
  "resolvePrefix key ctx = (if startsWith key ''@'' then None else Some (resolve_loop key ctx))"

type_synonym outcome = "store \<times> error option"

fun forEach :: "('a \<Rightarrow> store \<Rightarrow> outcome) \<Rightarrow> 'a list \<Rightarrow> store \<Rightarrow> outcome" where
  \<comment> \<open>\<open>xs.forEach(f)\<close> where \<open>f\<close> adds to the store: an exception ends the loop and
      leaves the store as it is then\<close>
  "forEach f [] st = (st, None)"
| "forEach f (x # xs) st =
     (case f x st of
        (st', Some e) \<Rightarrow> (st', Some e)
      | (st', None) \<Rightarrow> forEach f xs st')"

definition addType :: "context \<Rightarrow> json \<Rightarrow> val \<Rightarrow> store \<Rightarrow> outcome" where
  \<comment> \<open>the \<open>@type\<close> step of \<open>addTriples\<close>; \<open>startsWith\<close> is a method of strings only\<close>
  "addType ctx node subject st =
     (case get_prop node ''@type'' of
        Inl e \<Rightarrow> (st, Some e)
      | Inr ty \<Rightarrow>
          (if truthy_prop ty then
             (case ty of
                Some (JStr key) \<Rightarrow>
                  (let typeUri = (case resolvePrefix key ctx of
                                    None \<Rightarrow> key
                                  | Some r \<Rightarrow> if r = [] then key else r)
                   in (add st subject (sym_node RDF_TYPE) (sym_node typeUri), None))
              | _ \<Rightarrow> (st, Some TypeError))
           else (st, None)))"

definition resolve_id :: "string \<Rightarrow> json option \<Rightarrow> error + string" where
  \<comment> \<open>\<open>id.startsWith('http') ? id : baseUri + id\<close> for a truthy \<open>id\<close>\<close>
  "resolve_id baseUri ident =
     (case ident of
        Some (JStr x) \<Rightarrow> Inr (if startsWith x ''http'' then x else baseUri @ x)
      | _ \<Rightarrow> Inl TypeError)"

definition add_item ::
  "(json \<Rightarrow> string \<Rightarrow> store \<Rightarrow> outcome) \<Rightarrow> string \<Rightarrow> string \<Rightarrow> val \<Rightarrow> val \<Rightarrow> string
     \<Rightarrow> nat \<times> json \<Rightarrow> store \<Rightarrow> outcome" where
  \<comment> \<open>the function given to \<open>val.forEach\<close>; \<open>rec\<close> is the recursive call of \<open>addTriples\<close>\<close>
  "add_item rec baseUri subjectUri subject pred key = (\<lambda>(i, item) st.
     if json_is_object item \<and> \<not> truthy_prop (own_prop item ''@id'') then
       (let blankId = subjectUri @ ''_'' @ last (split_on CHR '':'' key) @ ''_'' @ string_of_nat i
        in rec item blankId (add st subject pred (sym_node blankId)))
     else if json_is_object item \<and> truthy_prop (own_prop item ''@id'') then
       (case resolve_id baseUri (own_prop item ''@id'') of
          Inl e \<Rightarrow> (st, Some e)
        | Inr uri \<Rightarrow> (add st subject pred (sym_node uri), None))
     else (add st subject pred (scalar_val item), None))"

definition add_property ::
  "(json \<Rightarrow> string \<Rightarrow> store \<Rightarrow> outcome) \<Rightarrow> context \<Rightarrow> string \<Rightarrow> string \<Rightarrow> val
     \<Rightarrow> string \<times> json \<Rightarrow> store \<Rightarrow> outcome" where
  \<comment> \<open>the function given to \<open>Object.entries(node).forEach\<close>\<close>
  "add_property rec ctx baseUri subjectUri subject = (\<lambda>(key, val) st.
     if startsWith key ''@'' then (st, None)
     else (case resolvePrefix key ctx of
             None \<Rightarrow> (st, None)
           | Some predUri \<Rightarrow>
               if predUri = [] then (st, None)
               else
                 (let pred = sym_node predUri in
                  case val of
                    JArr items \<Rightarrow>
                      forEach (add_item rec baseUri subjectUri subject pred key) (enumerate 0 items) st
                  | _ \<Rightarrow>
                      if json_is_object val \<and> truthy_prop (own_prop val ''@id'') then
                        (case resolve_id baseUri (own_prop val ''@id'') of
                           Inl e \<Rightarrow> (st, Some e)
                         | Inr uri \<Rightarrow> (add st subject pred (sym_node uri), None))
                      else if json_is_object val then
                        (let blankId = subjectUri @ ''_'' @ last (split_on CHR '':'' key)
                         in rec val blankId (add st subject pred (sym_node blankId)))
                      else (add st subject pred (scalar_val val), None))))"

lemma forEach_cong [fundef_cong]:
  "xs = ys \<Longrightarrow> st = st' \<Longrightarrow> (\<And>x a. x \<in> set ys \<Longrightarrow> f x a = g x a)
     \<Longrightarrow> forEach f xs st = forEach g ys st'"
proof (induction ys arbitrary: xs st st')
  case Nil
  then show ?case by simp
next
  case (Cons y ys)
  then show ?case by (auto split: prod.splits option.splits)
qed

lemma size_item_less: "item \<in> set items \<Longrightarrow> size item < Suc (size_list size items)"
  by (induction items) auto

lemma size_entry_less: "(k, v) \<in> set es \<Longrightarrow> size v < Suc (size_list (size_prod (\<lambda>_. 0) size) es)"
  by (induction es) auto

lemma enumerate_item: "(i, x) \<in> set (enumerate n xs) \<Longrightarrow> x \<in> set xs"
  by (auto simp: in_set_enumerate_eq)

lemma size_entries_less:
  "(k, v) \<in> set (entries node) \<Longrightarrow> json_is_object v \<Longrightarrow> size v < size node"
proof (cases node)
  case (JArr items)
  assume "(k, v) \<in> set (entries node)"
  with JArr have "v \<in> set items" by (auto dest: enumerate_item)
  with JArr show ?thesis using size_item_less [of v items] by simp
next
  case (JObj es)
  assume "(k, v) \<in> set (entries node)"
  with JObj show ?thesis using size_entry_less [of k v es] by simp
qed auto

lemma size_object_pos: "json_is_object v \<Longrightarrow> 0 < size v"
  by (cases v) auto

lemma size_nested_less:
  assumes "x \<in> set (entries node)" and "json_is_object v" and "size v \<le> size (snd x)"
  shows "size v < size node"
proof (cases "json_is_object (snd x)")
  case True
  with assms(1) have "size (snd x) < size node"
    using size_entries_less [of "fst x" "snd x" node] by simp
  with assms(3) show ?thesis by simp
next
  case False
  then have "size (snd x) = 0" by (cases "snd x") auto
  with assms(2,3) show ?thesis using size_object_pos [of v] by simp
qed

lemma add_item_cong [fundef_cong]:
  "baseUri = baseUri' \<Longrightarrow> subjectUri = subjectUri' \<Longrightarrow> subject = subject' \<Longrightarrow> pred = pred'
     \<Longrightarrow> key = key' \<Longrightarrow> x = x' \<Longrightarrow> st = st'
     \<Longrightarrow> (\<And>sid a. json_is_object (snd x') \<Longrightarrow> f (snd x') sid a = g (snd x') sid a)
     \<Longrightarrow> add_item f baseUri subjectUri subject pred key x st
         = add_item g baseUri' subjectUri' subject' pred' key' x' st'"
  by (cases x') (auto simp: add_item_def Let_def)

lemma add_property_cong [fundef_cong]:
  "ctx = ctx' \<Longrightarrow> baseUri = baseUri' \<Longrightarrow> subjectUri = subjectUri' \<Longrightarrow> subject = subject'
     \<Longrightarrow> x = x' \<Longrightarrow> st = st'
     \<Longrightarrow> (\<And>v sid a. json_is_object v \<Longrightarrow> size v \<le> size (snd x') \<Longrightarrow> f v sid a = g v sid a)
     \<Longrightarrow> add_property f ctx baseUri subjectUri subject x st
         = add_property g ctx' baseUri' subjectUri' subject' x' st'"
proof -
  assume eqs: "ctx = ctx'" "baseUri = baseUri'" "subjectUri = subjectUri'" "subject = subject'"
    "x = x'" "st = st'"
  assume fg: "\<And>v sid a. json_is_object v \<Longrightarrow> size v \<le> size (snd x') \<Longrightarrow> f v sid a = g v sid a"
  obtain key val where x': "x' = (key, val)" by (cases x')
  have items: "forEach (add_item f baseUri subjectUri subject pr key) (enumerate 0 items) a
      = forEach (add_item g baseUri subjectUri subject pr key) (enumerate 0 items) a"
    if "val = JArr items" for items pr a
  proof (rule forEach_cong [OF refl refl])
    fix y b
    assume "y \<in> set (enumerate 0 items)"
    then have "snd y \<in> set items" using enumerate_item [of "fst y" "snd y" 0 items] by simp
    then have "size (snd y) \<le> size val"
      using size_item_less [of "snd y" items] that by simp
    then show "add_item f baseUri subjectUri subject pr key y b
        = add_item g baseUri subjectUri subject pr key y b"
      using fg x' by (intro add_item_cong) auto
  qed
  show ?thesis
    using eqs x' fg [of val] items
    by (auto simp: add_property_def Let_def split: option.splits json.splits)
qed

function addTriples :: "context \<Rightarrow> string \<Rightarrow> json \<Rightarrow> string \<Rightarrow> store \<Rightarrow> outcome" where
  "addTriples ctx baseUri node subjectUri st =
     (let subject = sym_node subjectUri in
      case addType ctx node subject st of
        (st1, Some e) \<Rightarrow> (st1, Some e)
      | (st1, None) \<Rightarrow>
          forEach (add_property (addTriples ctx baseUri) ctx baseUri subjectUri subject)
            (entries node) st1)"
  by pat_completeness auto
termination
proof (relation "measure (\<lambda>(ctx, baseUri, node, subjectUri, st). size node)")
  show "wf (measure (\<lambda>(ctx, baseUri, node, subjectUri, st). size node))" by simp
next
  fix ctx :: "context" and baseUri subjectUri sid :: string and node v :: json
    and st a :: store and x :: "string \<times> json"
  assume "x \<in> set (entries node)" "json_is_object v" "size v \<le> size (snd x)"
  then show "((ctx, baseUri, v, sid, a), ctx, baseUri, node, subjectUri, st)
      \<in> measure (\<lambda>(ctx, baseUri, node, subjectUri, st). size node)"
    using size_nested_less [of x node v] by simp
qed

declare addTriples.simps [simp del]

definition id_or_thing :: "json \<Rightarrow> error + string" where
  \<comment> \<open>the text \<open>jsonld['@id'] || '#thing'\<close> adds to the base URI\<close>
  "id_or_thing jsonld =
     (case own_prop jsonld ''@id'' of
        None \<Rightarrow> Inr ''#thing''
      | Some v \<Rightarrow> if json_truthy v then json_toString v else Inr ''#thing'')"

definition parseJsonLdToStore :: "json \<Rightarrow> string \<Rightarrow> store \<Rightarrow> store \<times> (error + val)" where
  \<comment> \<open>the store after the call, and the root subject or the exception raised\<close>
  "parseJsonLdToStore jsonld baseUri st =
     (case build_context jsonld of
        Inl e \<Rightarrow> (st, Inl e)
      | Inr ctx \<Rightarrow>
          (case id_or_thing jsonld of
             Inl e \<Rightarrow> (st, Inl e)
           | Inr suffix \<Rightarrow>
               (let rootId = baseUri @ suffix in
                case addTriples ctx baseUri jsonld rootId st of
                  (st', Some e) \<Rightarrow> (st', Inl e)
                | (st', None) \<Rightarrow> (st', Inr (sym_node rootId)))))"

section \<open>Documents the translator accepts\<close>

text \<open>
  The translator calls \<open>startsWith\<close> on every truthy \<open>@type\<close> and on every truthy \<open>@id\<close>
  of a nested object, which only a string has. A document is \<open>plain\<close> when each \<open>@type\<close>
  and each \<open>@id\<close> in it, at any depth, is absent, falsy or a string.
\<close>

fun string_or_falsy :: "json option \<Rightarrow> bool" where
  "string_or_falsy None = True"
| "string_or_falsy (Some (JStr x)) = True"
| "string_or_falsy (Some v) = (\<not> json_truthy v)"

fun plain :: "json \<Rightarrow> bool" where
  "plain (JObj es) =
     (string_or_falsy (map_of es ''@type'') \<and> string_or_falsy (map_of es ''@id'') \<and>
      (\<forall>e \<in> set es. plain (snd e)))"
| "plain (JArr items) = (\<forall>v \<in> set items. plain v)"
| "plain v = True"


text \<open>
  The keys \<open>findTypeURIs\<close> sets for a type URI, for the object of a triple, and the
  triples it looks at for a subject: names for the statements of the lemmas below.
\<close>

definition type_keys :: "string \<Rightarrow> string list" where
  "type_keys u =
     (if startsWith u ''http://schema.org/'' then [u, ''https://'' @ drop 7 u]
      else if startsWith u ''https://schema.org/'' then [u, ''http://'' @ drop 8 u]
      else [u])"

definition indexed_keys :: "val \<Rightarrow> string list" where
  "indexed_keys ob =
     (case ob of
        NamedNode u \<Rightarrow> if u = [] then [] else type_keys u
      | Str u \<Rightarrow> if u = [] then [] else type_keys u
      | _ \<Rightarrow> [])"

definition is_type_triple :: "val \<Rightarrow> triple \<Rightarrow> bool" where
  "is_type_triple s t = (matchUri (t_s t) s \<and> predicate_is_type (t_p t) = Inr True)"

section \<open>Evaluation\<close>

lemmas store_eval =
  matchUri_def uri_or_value_def js_or_def normalize_uri_def js_replace_def startsWith_def
  predicate_is_type_def index_type_def set_property_def object_text_def object_node_def
  RDF_TYPE_def sym_node_def add_def

lemmas translator_eval =
  parseJsonLdToStore_def build_context_def get_prop_def id_or_thing_def addTriples.simps
  addType_def add_property_def add_item_def resolve_id_def resolvePrefix_def ctx_assign_def
  startsWith_def js_replace_def RDF_TYPE_def sym_node_def add_def Let_def string_of_nat.simps

section \<open>Lemmas on the store\<close>

lemma matchUri_NamedNode_refl: "matchUri (NamedNode u) (NamedNode u)"
  by (simp add: matchUri_def uri_or_value_def js_or_def normalize_uri_def)

lemma each_loop_append:
  "each_loop st s p acc = acc @ each_loop st s p []"
proof (induction st arbitrary: acc)
  case Nil
  then show ?case by simp
next
  case (Cons t st)
  show ?case
    using Cons.IH [of "acc @ [t_o t]"] Cons.IH [of "[t_o t]"]
      Cons.IH [of "acc @ [LiteralTerm (js_String (t_o t))]"] Cons.IH [of "[LiteralTerm (js_String (t_o t))]"]
      Cons.IH [of acc]
    by simp
qed

lemma each_filter:
  "each st s p =
     map object_node
       (filter (\<lambda>ob. ob \<noteq> Null \<and> ob \<noteq> Undefined)
          (map t_o (filter (\<lambda>t. matchUri (t_s t) s \<and> matchUri (t_p t) p) st)))"
proof (induction st)
  case Nil
  then show ?case by (simp add: each_def)
next
  case (Cons t st)
  have app: "each_loop st s p [x] = x # each st s p" for x
    using each_loop_append [of st s p "[x]"] by (simp add: each_def)
  show ?case
    using Cons.IH by (cases "t_o t") (auto simp: each_def app object_node_def)
qed

section \<open>Lemmas on the translator\<close>

lemma forEach_ok:
  "(\<And>x a. x \<in> set xs \<Longrightarrow> snd (f x a) = None) \<Longrightarrow> snd (forEach f xs st) = None"
proof (induction xs arbitrary: st)
  case Nil
  then show ?case by simp
next
  case (Cons x xs)
  from Cons.prems [of x st] obtain st' where "f x st = (st', None)"
    by (cases "f x st") auto
  with Cons show ?case by simp
qed

lemma string_or_falsy_cases:
  "string_or_falsy v \<Longrightarrow> truthy_prop v \<Longrightarrow> \<exists>x. v = Some (JStr x)"
  by (cases v rule: string_or_falsy.cases) auto

lemma addType_ok:
  "node \<noteq> JNull \<Longrightarrow> string_or_falsy (own_prop node ''@type'')
     \<Longrightarrow> snd (addType ctx node subject st) = None"
  by (auto simp: addType_def get_prop_def Let_def dest: string_or_falsy_cases)

lemma resolve_id_ok:
  "string_or_falsy v \<Longrightarrow> truthy_prop v \<Longrightarrow> \<exists>uri. resolve_id baseUri v = Inr uri"
  by (auto simp: resolve_id_def dest: string_or_falsy_cases)

lemma plain_id: "plain v \<Longrightarrow> string_or_falsy (own_prop v ''@id'')"
  by (cases v) auto

lemma plain_type: "plain v \<Longrightarrow> string_or_falsy (own_prop v ''@type'')"
  by (cases v) auto

lemma plain_entries: "plain node \<Longrightarrow> x \<in> set (entries node) \<Longrightarrow> plain (snd x)"
  by (cases node) (auto dest: enumerate_item)

lemma add_item_ok:
  assumes "\<And>sid a. json_is_object (snd x) \<Longrightarrow> snd (rec (snd x) sid a) = None"
    and "plain (snd x)"
  shows "snd (add_item rec baseUri subjectUri subject pred key x st) = None"
proof (cases x)
  case (Pair i item)
  show ?thesis
    using assms plain_id [of item] resolve_id_ok [of "own_prop item ''@id''" baseUri] Pair
    by (auto simp: add_item_def Let_def)
qed

lemma add_property_ok:
  assumes rec: "\<And>v sid a. json_is_object v \<Longrightarrow> size v \<le> size (snd x) \<Longrightarrow> plain v
      \<Longrightarrow> snd (rec v sid a) = None"
    and pl: "plain (snd x)"
  shows "snd (add_property rec ctx baseUri subjectUri subject x st) = None"
proof (cases x)
  case (Pair key val)
  have items: "snd (forEach (add_item rec baseUri subjectUri subject pr key) (enumerate 0 items) a) = None"
    if "val = JArr items" for items pr a
  proof (rule forEach_ok)
    fix y b
    assume "y \<in> set (enumerate 0 items)"
    then have mem: "snd y \<in> set items" using enumerate_item [of "fst y" "snd y" 0 items] by simp
    then have "size (snd y) \<le> size val" using size_item_less [of "snd y" items] that by simp
    moreover have "plain (snd y)" using mem pl that Pair by simp
    ultimately show "snd (add_item rec baseUri subjectUri subject pr key y b) = None"
      using rec Pair by (intro add_item_ok) auto
  qed
  show ?thesis
    using Pair items rec [of val] pl plain_id [of val] resolve_id_ok [of "own_prop val ''@id''" baseUri]
    by (auto simp: add_property_def Let_def split: option.splits json.splits)
qed

lemma addTriples_ok:
  "node \<noteq> JNull \<Longrightarrow> plain node \<Longrightarrow> snd (addTriples ctx baseUri node subjectUri st) = None"
proof (induction ctx baseUri node subjectUri st rule: addTriples.induct)
  case (1 ctx baseUri node subjectUri st)
  obtain st1 where ty: "addType ctx node (sym_node subjectUri) st = (st1, None)"
    using addType_ok [OF "1.prems"(1) plain_type [OF "1.prems"(2)], of ctx "sym_node subjectUri" st]
    by (cases "addType ctx node (sym_node subjectUri) st") auto
  have "snd (forEach (add_property (addTriples ctx baseUri) ctx baseUri subjectUri (sym_node subjectUri))
          (entries node) st1) = None"
  proof (rule forEach_ok)
    fix x a
    assume x: "x \<in> set (entries node)"
    show "snd (add_property (addTriples ctx baseUri) ctx baseUri subjectUri (sym_node subjectUri) x a) = None"
    proof (rule add_property_ok)
      show "plain (snd x)" using plain_entries [OF "1.prems"(2) x] .
    next
      fix v sid b
      assume v: "json_is_object v" "size v \<le> size (snd x)" "plain v"
      then have "v \<noteq> JNull" by auto
      with v show "snd (addTriples ctx baseUri v sid b) = None"
        using "1.IH" [OF refl ty [symmetric] refl x, of v sid b] by simp
    qed
  qed
  with ty show ?case by (simp add: addTriples.simps [of ctx baseUri node])
qed


lemma build_context_ok: "D \<noteq> JNull \<Longrightarrow> \<exists>ctx. build_context D = Inr ctx"
  by (auto simp: build_context_def get_prop_def split: option.splits json.splits)

lemma id_or_thing_plain:
  "plain D \<Longrightarrow> id_or_thing D =
     Inr (case own_prop D ''@id'' of Some (JStr x) \<Rightarrow> if x = [] then ''#thing'' else x | _ \<Rightarrow> ''#thing'')"
  using plain_id [of D]
  by (cases "own_prop D ''@id''" rule: string_or_falsy.cases) (auto simp: id_or_thing_def)

lemma forEach_extends:
  "(\<And>x a. x \<in> set xs \<Longrightarrow> \<exists>ts. fst (f x a) = a @ ts) \<Longrightarrow> \<exists>ts. fst (forEach f xs st) = st @ ts"
proof (induction xs arbitrary: st)
  case Nil
  then show ?case by simp
next
  case (Cons x xs)
  obtain st' r where fx: "f x st = (st', r)" by (cases "f x st")
  obtain ts where ts: "st' = st @ ts" using Cons.prems [of x st] fx by auto
  show ?case
  proof (cases r)
    case None
    obtain us where "fst (forEach f xs st') = st' @ us"
      using Cons.IH [of st'] Cons.prems by auto
    with fx None ts show ?thesis by simp
  next
    case (Some e)
    with fx ts show ?thesis by simp
  qed
qed

lemma add_item_extends:
  assumes "\<And>sid a. json_is_object (snd x) \<Longrightarrow> \<exists>ts. fst (rec (snd x) sid a) = a @ ts"
  shows "\<exists>ts. fst (add_item rec baseUri subjectUri subject pred key x st) = st @ ts"
proof (cases x)
  case (Pair i item)
  show ?thesis
  proof (cases "json_is_object item \<and> \<not> truthy_prop (own_prop item ''@id'')")
    case True
    let ?blank = "subjectUri @ ''_'' @ last (split_on CHR '':'' key) @ ''_'' @ string_of_nat i"
    obtain ts where "fst (rec item ?blank (add st subject pred (sym_node ?blank)))
        = add st subject pred (sym_node ?blank) @ ts"
      using assms [of ?blank "add st subject pred (sym_node ?blank)"] True Pair by auto
    with True Pair show ?thesis by (simp add: add_item_def Let_def add_def)
  next
    case False
    with Pair show ?thesis
      by (auto simp: add_item_def add_def split: sum.splits)
  qed
qed

lemma add_property_extends:
  assumes rec: "\<And>v sid a. json_is_object v \<Longrightarrow> size v \<le> size (snd x)
      \<Longrightarrow> \<exists>ts. fst (rec v sid a) = a @ ts"
  shows "\<exists>ts. fst (add_property rec ctx baseUri subjectUri subject x st) = st @ ts"
proof (cases x)
  case (Pair key val)
  have items: "\<exists>ts. fst (forEach (add_item rec baseUri subjectUri subject pr key) (enumerate 0 items) a) = a @ ts"
    if "val = JArr items" for items pr a
  proof (rule forEach_extends)
    fix y b
    assume "y \<in> set (enumerate 0 items)"
    then have mem: "snd y \<in> set items" using enumerate_item [of "fst y" "snd y" 0 items] by simp
    then have "size (snd y) \<le> size val" using size_item_less [of "snd y" items] that by simp
    then show "\<exists>ts. fst (add_item rec baseUri subjectUri subject pr key y b) = b @ ts"
      using rec Pair by (intro add_item_extends) auto
  qed
  show ?thesis
  proof (cases "startsWith key ''@'' \<or> resolvePrefix key ctx = None \<or> resolvePrefix key ctx = Some []")
    case True
    with Pair show ?thesis by (auto simp: add_property_def)
  next
    case False
    then obtain predUri where pu: "resolvePrefix key ctx = Some predUri" "predUri \<noteq> []"
      "\<not> startsWith key ''@''" by auto
    show ?thesis
    proof (cases val)
      case (JArr its)
      with items [OF JArr] pu Pair show ?thesis by (simp add: add_property_def)
    next
      case (JObj es)
      let ?blank = "subjectUri @ ''_'' @ last (split_on CHR '':'' key)"
      obtain ts where "fst (rec val ?blank (add st subject (sym_node predUri) (sym_node ?blank)))
          = add st subject (sym_node predUri) (sym_node ?blank) @ ts"
        using rec [of val ?blank] JObj Pair by auto
      with JObj pu Pair show ?thesis
        by (auto simp: add_property_def Let_def add_def split: sum.splits)
    qed (use pu Pair in \<open>auto simp: add_property_def add_def\<close>)
  qed
qed

lemma addType_extends: "\<exists>ts. fst (addType ctx node subject st) = st @ ts"
  by (auto simp: addType_def Let_def add_def split: sum.splits option.splits json.splits)

lemma addTriples_extends:
  "\<exists>ts. fst (addTriples ctx baseUri node subjectUri st) = st @ ts"
proof (induction ctx baseUri node subjectUri st rule: addTriples.induct)
  case (1 ctx baseUri node subjectUri st)
  obtain st1 r where ty: "addType ctx node (sym_node subjectUri) st = (st1, r)"
    by (cases "addType ctx node (sym_node subjectUri) st")
  obtain ts where ts: "st1 = st @ ts"
    using addType_extends [of ctx node "sym_node subjectUri" st] ty by auto
  show ?case
  proof (cases r)
    case (Some e)
    with ty ts show ?thesis by (simp add: addTriples.simps [of ctx baseUri node])
  next
    case None
    have "\<exists>us. fst (forEach (add_property (addTriples ctx baseUri) ctx baseUri subjectUri (sym_node subjectUri))
            (entries node) st1) = st1 @ us"
    proof (rule forEach_extends)
      fix x a
      assume x: "x \<in> set (entries node)"
      show "\<exists>ts. fst (add_property (addTriples ctx baseUri) ctx baseUri subjectUri (sym_node subjectUri) x a) = a @ ts"
        using "1.IH" [OF refl _ refl x] ty None by (intro add_property_extends) auto
    qed
    with ty ts None show ?thesis by (auto simp: addTriples.simps [of ctx baseUri node])
  qed
qed

lemma resolve_loop_unmatched:
  "\<forall>e \<in> set ctx. \<not> startsWith key (fst e @ '':'') \<Longrightarrow> resolve_loop key ctx = key"
  by (induction ctx) auto

lemma forEach_member:
  assumes "x \<in> set xs"
    and "\<And>y a. y \<in> set xs \<Longrightarrow> snd (f y a) = None"
    and "\<And>y a. y \<in> set xs \<Longrightarrow> \<exists>ts. fst (f y a) = a @ ts"
    and "\<And>a. \<exists>t \<in> set (fst (f x a)). Q t"
  shows "\<exists>t \<in> set (fst (forEach f xs st)). Q t"
  using assms
proof (induction xs arbitrary: st)
  case Nil
  then show ?case by simp
next
  case (Cons y ys)
  obtain st' where fy: "f y st = (st', None)"
    using Cons.prems(2) [of y st] by (cases "f y st") auto
  show ?case
  proof (cases "x = y")
    case True
    obtain t where t: "t \<in> set st'" "Q t" using Cons.prems(4) [of st] fy True by auto
    obtain us where "fst (forEach f ys st') = st' @ us"
      using forEach_extends [of ys f st'] Cons.prems(3) by auto
    with t fy show ?thesis by auto
  next
    case False
    with Cons.prems(1) have "x \<in> set ys" by simp
    then have "\<exists>t \<in> set (fst (forEach f ys st')). Q t"
      using Cons.prems by (intro Cons.IH) auto
    with fy show ?thesis by simp
  qed
qed

lemma add_item_emits:
  assumes "\<And>sid a. \<exists>ts. fst (rec (snd x) sid a) = a @ ts" and "plain (snd x)"
  shows "\<exists>ob. Triple subject pred ob \<in> set (fst (add_item rec baseUri subjectUri subject pred key x st))"
proof (cases x)
  case (Pair i item)
  show ?thesis
  proof (cases "json_is_object item \<and> \<not> truthy_prop (own_prop item ''@id'')")
    case True
    let ?blank = "subjectUri @ ''_'' @ last (split_on CHR '':'' key) @ ''_'' @ string_of_nat i"
    obtain ts where "fst (rec item ?blank (add st subject pred (sym_node ?blank)))
        = add st subject pred (sym_node ?blank) @ ts"
      using assms(1) [of ?blank "add st subject pred (sym_node ?blank)"] Pair by auto
    with True Pair show ?thesis by (auto simp: add_item_def Let_def add_def)
  next
    case False
    show ?thesis
    proof (cases "json_is_object item")
      case True
      with False have tr: "truthy_prop (own_prop item ''@id'')" by simp
      then obtain uri where "resolve_id baseUri (own_prop item ''@id'') = Inr uri"
        using resolve_id_ok [OF plain_id tr] assms(2) Pair by auto
      with True tr Pair have "Triple subject pred (sym_node uri)
          \<in> set (fst (add_item rec baseUri subjectUri subject pred key x st))"
        by (simp add: add_item_def add_def)
      then show ?thesis by blast
    next
      case False
      with Pair have "Triple subject pred (scalar_val item)
          \<in> set (fst (add_item rec baseUri subjectUri subject pred key x st))"
        by (simp add: add_item_def add_def)
      then show ?thesis by blast
    qed
  qed
qed

lemma add_property_emits:
  assumes key: "\<not> startsWith key ''@''" "resolvePrefix key ctx = Some predUri" "predUri \<noteq> []"
    and rec: "\<And>v sid a. \<exists>ts. fst (rec v sid a) = a @ ts"
    and pl: "plain val" and ne: "val \<noteq> JArr []"
  shows "\<exists>t \<in> set (fst (add_property rec ctx baseUri subjectUri subject (key, val) st)).
           t_s t = subject \<and> t_p t = NamedNode predUri"
proof (cases val)
  case (JArr items)
  with ne obtain item rest where items: "items = item # rest" by (cases items) auto
  let ?f = "add_item rec baseUri subjectUri subject (NamedNode predUri) key"
  obtain st1 r where f0: "?f (0, item) st = (st1, r)" by (cases "?f (0, item) st")
  obtain ob where ob: "Triple subject (NamedNode predUri) ob \<in> set st1"
    using add_item_emits [of rec "(0, item)" subject "NamedNode predUri" baseUri subjectUri key st]
      rec pl JArr items f0 by auto
  have "\<exists>t \<in> set (fst (forEach ?f ((0, item) # enumerate (Suc 0) rest) st)).
           t_s t = subject \<and> t_p t = NamedNode predUri"
  proof (cases r)
    case None
    obtain us where "fst (forEach ?f (enumerate (Suc 0) rest) st1) = st1 @ us"
      using forEach_extends [of "enumerate (Suc 0) rest" ?f st1] add_item_extends [of _ rec] rec
      by blast
    with f0 None ob show ?thesis by force
  next
    case (Some e)
    with f0 ob show ?thesis by force
  qed
  with key JArr items show ?thesis by (simp add: add_property_def sym_node_def Let_def)
next
  case (JObj es)
  let ?blank = "subjectUri @ ''_'' @ last (split_on CHR '':'' key)"
  obtain ts where "fst (rec val ?blank (add st subject (sym_node predUri) (sym_node ?blank)))
      = add st subject (sym_node predUri) (sym_node ?blank) @ ts"
    using rec by blast
  with JObj key pl plain_id [of val] resolve_id_ok [of "own_prop val ''@id''" baseUri]
  show ?thesis
    by (cases "truthy_prop (map_of es ''@id'')")
      (auto simp: add_property_def Let_def add_def sym_node_def)
qed (use key in \<open>auto simp: add_property_def add_def sym_node_def\<close>)


lemma addTriples_ok_object:
  "json_is_object v \<Longrightarrow> plain v \<Longrightarrow> snd (addTriples ctx baseUri v sid st) = None"
  by (rule addTriples_ok) auto

lemma translate_emits:
  assumes key: "\<not> startsWith k ''@''" "resolvePrefix k C = Some predUri" "predUri \<noteq> []"
    and mem: "(k, v) \<in> set es" and ctx: "build_context (JObj es) = Inr C"
    and pl: "plain (JObj es)" and ne: "v \<noteq> JArr []"
  shows "\<exists>st' root. parseJsonLdToStore (JObj es) B st = (st', Inr root) \<and>
           (\<exists>t \<in> set st'. t_s t = root \<and> t_p t = NamedNode predUri)"
proof -
  obtain suffix where suffix: "id_or_thing (JObj es) = Inr suffix"
    using id_or_thing_plain [OF pl] by blast
  let ?root = "B @ suffix"
  let ?f = "add_property (addTriples C B) C B ?root (sym_node ?root)"
  obtain st1 where ty: "addType C (JObj es) (sym_node ?root) st = (st1, None)"
    using addType_ok [of "JObj es" C "sym_node ?root" st] plain_type [OF pl]
    by (cases "addType C (JObj es) (sym_node ?root) st") auto
  have ok: "snd (?f y a) = None" if "y \<in> set es" for y a
    using that pl addTriples_ok_object [of _ C B] by (intro add_property_ok) auto
  have ext: "\<exists>ts. fst (?f y a) = a @ ts" for y a
    using addTriples_extends [of C B] by (intro add_property_extends) auto
  have em: "\<exists>t \<in> set (fst (?f (k, v) a)). t_s t = sym_node ?root \<and> t_p t = NamedNode predUri" for a
    using key mem pl ne addTriples_extends [of C B] by (intro add_property_emits) auto
  have found: "\<exists>t \<in> set (fst (forEach ?f es st1)). t_s t = sym_node ?root \<and> t_p t = NamedNode predUri"
    using mem ok ext em by (intro forEach_member [of "(k, v)" es ?f]) auto
  have fin: "snd (forEach ?f es st1) = None"
    using ok by (intro forEach_ok) auto
  obtain st' where st': "forEach ?f es st1 = (st', None)"
    using fin by (cases "forEach ?f es st1") auto
  have "parseJsonLdToStore (JObj es) B st = (st', Inr (sym_node ?root))"
    using ctx suffix ty st' by (simp add: parseJsonLdToStore_def addTriples.simps [of C B "JObj es"])
  with found st' show ?thesis by auto
qed






lemma forEach_add_item_strings:
  "forEach (add_item rec baseUri sid subject pred key) (enumerate n (map JStr xs)) st
     = (st @ map (\<lambda>x. Triple subject pred (Str x)) xs, None)"
  by (induction xs arbitrary: n st) (auto simp: add_item_def add_def)

lemma each_strings:
  "each (map (\<lambda>x. Triple (NamedNode r) (NamedNode P) (Str x)) xs) (NamedNode r) (NamedNode P)
     = map LiteralTerm xs"
  by (induction xs) (auto simp: each_filter matchUri_NamedNode_refl object_node_def)

lemma firstIndexOf_prefix:
  "startsWith u p \<Longrightarrow> firstIndexOf p u = Some ([], drop (length p) u)"
  by (cases u) (auto simp: startsWith_def)

lemma js_replace_prefix:
  "startsWith u p \<Longrightarrow> js_replace u p r = getSubstitution p [] (drop (length p) u) r @ drop (length p) u"
  by (simp add: js_replace_def firstIndexOf_prefix)

lemma replace_http: "js_replace (''http://schema.org/'' @ X) ''http://'' ''https://'' = ''https://schema.org/'' @ X"
  by (simp add: js_replace_prefix startsWith_def)

lemma replace_https: "js_replace (''https://schema.org/'' @ X) ''https://'' ''http://'' = ''http://schema.org/'' @ X"
  by (simp add: js_replace_prefix startsWith_def)

lemma startsWith_append: "startsWith u p \<longleftrightarrow> (\<exists>X. u = p @ X)"
  unfolding startsWith_def
  by (metis append_eq_conv_conj append_take_drop_id)

lemma replace_http_drop:
  assumes "startsWith u ''http://schema.org/''"
  shows "js_replace u ''http://'' ''https://'' = ''https://'' @ drop 7 u"
proof -
  obtain X where "u = ''http://schema.org/'' @ X" using assms startsWith_append by blast
  then show ?thesis using replace_http [of X] by simp
qed

lemma replace_https_drop:
  assumes "startsWith u ''https://schema.org/''"
  shows "js_replace u ''https://'' ''http://'' = ''http://'' @ drop 8 u"
proof -
  obtain X where "u = ''https://schema.org/'' @ X" using assms startsWith_append by blast
  then show ?thesis using replace_https [of X] by simp
qed

lemma index_type_keys:
  "index_type ob m = Inr m' \<Longrightarrow> m' = fold (\<lambda>k m. set_property m k True) (indexed_keys ob) m"
  by (cases ob)
    (auto simp: index_type_def indexed_keys_def type_keys_def Let_def replace_http_drop
      replace_https_drop split: if_splits)

lemma set_property_keys:
  "fold (\<lambda>k m. set_property m k True) ks m k =
     (if k \<in> set ks \<and> k \<noteq> ''__proto__'' then Some True else m k)"
  by (induction ks arbitrary: m) (auto simp: set_property_def)

lemma findTypeURIs_loop_step:
  assumes "findTypeURIs_loop (t # st) s m0 = Inr m"
  shows "\<exists>m1. findTypeURIs_loop st s m1 = Inr m \<and>
           m1 = (if is_type_triple s t
                 then fold (\<lambda>k m. set_property m k True) (indexed_keys (t_o t)) m0 else m0)"
proof (cases "is_type_triple s t")
  case True
  then obtain m1 where m1: "index_type (t_o t) m0 = Inr m1" "findTypeURIs_loop st s m1 = Inr m"
    using assms by (auto simp: is_type_triple_def split: sum.splits)
  with True index_type_keys [OF m1(1)] show ?thesis by simp
next
  case False
  then have "findTypeURIs_loop st s m0 = Inr m"
    using assms by (auto simp: is_type_triple_def split: sum.splits bool.splits if_splits)
  with False show ?thesis by simp
qed

lemma findTypeURIs_loop_keys:
  assumes "findTypeURIs_loop st s m0 = Inr m"
  shows "m k =
     (if k \<noteq> ''__proto__'' \<and> (\<exists>t \<in> set st. is_type_triple s t \<and> k \<in> set (indexed_keys (t_o t)))
      then Some True else m0 k)"
  using assms
proof (induction st arbitrary: m0)
  case Nil
  then show ?case by simp
next
  case (Cons t st)
  from findTypeURIs_loop_step [OF Cons.prems]
  obtain m1 where run: "findTypeURIs_loop st s m1 = Inr m"
    and m1: "m1 = (if is_type_triple s t
                 then fold (\<lambda>k m. set_property m k True) (indexed_keys (t_o t)) m0 else m0)"
    by blast
  have step: "m1 k = (if is_type_triple s t \<and> k \<in> set (indexed_keys (t_o t)) \<and> k \<noteq> ''__proto__''
                     then Some True else m0 k)"
    unfolding m1 by (simp add: set_property_keys)
  show ?case
    unfolding Cons.IH [OF run] step by auto
qed


lemma findTypeURIs_keys:
  assumes "findTypeURIs st s = Inr m"
  shows "m k =
     (if k \<noteq> ''__proto__'' \<and> (\<exists>t \<in> set st. is_type_triple s t \<and> k \<in> set (indexed_keys (t_o t)))
      then Some True else None)"
  using findTypeURIs_loop_keys [of st s Map.empty m k] assms by (simp add: findTypeURIs_def)

lemma type_keys_http: "type_keys (''http://schema.org/'' @ X) = [''http://schema.org/'' @ X, ''https://schema.org/'' @ X]"
  by (simp add: type_keys_def startsWith_def)

lemma type_keys_https: "type_keys (''https://schema.org/'' @ X) = [''https://schema.org/'' @ X, ''http://schema.org/'' @ X]"
  by (simp add: type_keys_def startsWith_def)

lemma parse_root:
  assumes "snd (parseJsonLdToStore D B st) = Inr root"
  shows "\<exists>suffix. id_or_thing D = Inr suffix \<and> root = NamedNode (B @ suffix)"
  using assms
  by (auto simp: parseJsonLdToStore_def sym_node_def Let_def split: sum.splits prod.splits option.splits)

lemma normalize_https:
  "normalize_uri (Str (''https://schema.org/'' @ X)) = Str (''http://schema.org/'' @ X)"
  using js_replace_prefix [of "''https://schema.org/'' @ X" "''https://schema.org/''" "''http://schema.org/''"]
  by (simp add: normalize_uri_def startsWith_def)

lemma normalize_http:
  "firstIndexOf ''https://schema.org/'' X = None
     \<Longrightarrow> normalize_uri (Str (''http://schema.org/'' @ X)) = Str (''http://schema.org/'' @ X)"
  by (simp add: normalize_uri_def js_replace_def startsWith_def)

lemma matchUri_schemes:
  assumes "firstIndexOf ''https://schema.org/'' X = None"
  shows "matchUri (NamedNode (''http://schema.org/'' @ X)) (NamedNode (''https://schema.org/'' @ X))"
    and "matchUri (NamedNode (''https://schema.org/'' @ X)) (NamedNode (''http://schema.org/'' @ X))"
  using normalize_http [OF assms] normalize_https [of X]
  by (simp_all add: matchUri_def uri_or_value_def js_or_def)

lemma add_keeps_store: "add st s p ob = st @ [Triple s p ob]"
  by (simp add: add_def)

text \<open>
  What \<open>anyValue\<close> computes, case by case, for the first matching triple.
\<close>

lemma anyValue_first_match:
  "anyValue st s p =
     (case find (\<lambda>t. matchUri (t_s t) s \<and> matchUri (t_p t) p) st of
        None \<Rightarrow> Null
      | Some t \<Rightarrow>
          (case t_o t of
             LiteralTerm v \<Rightarrow> if v = [] then Null else Str v
           | NamedNode u \<Rightarrow> if u = [] then Null else Str u
           | Str x \<Rightarrow> Str x
           | Num n \<Rightarrow> Str n
           | Bool b \<Rightarrow> Str (if b then ''true'' else ''false'')
           | Null \<Rightarrow> Null
           | Undefined \<Rightarrow> Null))"
  by (induction st) (auto simp: object_text_def js_or_def split: val.splits)

text \<open>
  What \<open>findTypeURIs\<close> holds when it returns: both schemes for a type URI under
  \<open>schema.org\<close>, the stored URI for any other, and no key besides.
\<close>

lemma findTypeURIs_both_schemes:
  assumes "findTypeURIs st s = Inr m"
  shows "(Triple s' pr ob \<in> set st \<and> matchUri s' s \<and> predicate_is_type pr = Inr True \<and>
          (ob = NamedNode (''http://schema.org/'' @ X) \<or> ob = Str (''http://schema.org/'' @ X) \<or>
           ob = NamedNode (''https://schema.org/'' @ X) \<or> ob = Str (''https://schema.org/'' @ X))
            \<longrightarrow> m (''http://schema.org/'' @ X) = Some True \<and> m (''https://schema.org/'' @ X) = Some True) \<and>
         (Triple s' pr ob \<in> set st \<and> matchUri s' s \<and> predicate_is_type pr = Inr True \<and>
          (ob = NamedNode u \<or> ob = Str u) \<and> u \<noteq> [] \<and> u \<noteq> ''__proto__''
            \<longrightarrow> m u = Some True) \<and>
         (m k \<noteq> None \<longrightarrow>
            m k = Some True \<and>
            (\<exists>t \<in> set st. matchUri (t_s t) s \<and> predicate_is_type (t_p t) = Inr True \<and>
               (\<exists>v. (t_o t = NamedNode v \<or> t_o t = Str v) \<and>
                  (k = v \<or>
                   (startsWith v ''http://schema.org/'' \<and> k = ''https://'' @ drop 7 v) \<or>
                   (startsWith v ''https://schema.org/'' \<and> k = ''http://'' @ drop 8 v)))))"
proof (intro conjI impI)
  note keys = findTypeURIs_keys [OF assms]
  {
    assume a: "Triple s' pr ob \<in> set st \<and> matchUri s' s \<and> predicate_is_type pr = Inr True \<and>
          (ob = NamedNode (''http://schema.org/'' @ X) \<or> ob = Str (''http://schema.org/'' @ X) \<or>
           ob = NamedNode (''https://schema.org/'' @ X) \<or> ob = Str (''https://schema.org/'' @ X))"
    then have tt: "is_type_triple s (Triple s' pr ob)" by (simp add: is_type_triple_def)
    from a have ik: "set (indexed_keys ob) = {''http://schema.org/'' @ X, ''https://schema.org/'' @ X}"
      using type_keys_http [of X] type_keys_https [of X] by (auto simp: indexed_keys_def)
    have "\<exists>t \<in> set st. is_type_triple s t \<and> ''http://schema.org/'' @ X \<in> set (indexed_keys (t_o t))"
      using a tt ik by (intro bexI [of _ "Triple s' pr ob"]) auto
    then show "m (''http://schema.org/'' @ X) = Some True"
      unfolding keys [of "''http://schema.org/'' @ X"] by simp
    have "\<exists>t \<in> set st. is_type_triple s t \<and> ''https://schema.org/'' @ X \<in> set (indexed_keys (t_o t))"
      using a tt ik by (intro bexI [of _ "Triple s' pr ob"]) auto
    then show "m (''https://schema.org/'' @ X) = Some True"
      unfolding keys [of "''https://schema.org/'' @ X"] by simp
  }
  {
    assume a: "Triple s' pr ob \<in> set st \<and> matchUri s' s \<and> predicate_is_type pr = Inr True \<and>
          (ob = NamedNode u \<or> ob = Str u) \<and> u \<noteq> [] \<and> u \<noteq> ''__proto__''"
    then have tt: "is_type_triple s (Triple s' pr ob)" by (simp add: is_type_triple_def)
    from a have "u \<in> set (indexed_keys ob)" by (auto simp: indexed_keys_def type_keys_def)
    then have "\<exists>t \<in> set st. is_type_triple s t \<and> u \<in> set (indexed_keys (t_o t))"
      using a tt by (intro bexI [of _ "Triple s' pr ob"]) auto
    with a show "m u = Some True" unfolding keys [of u] by simp
  }
  {
    assume a: "m k \<noteq> None"
    then show "m k = Some True" unfolding keys [of k] by (simp split: if_splits)
    from a obtain t where t: "t \<in> set st" "is_type_triple s t" "k \<in> set (indexed_keys (t_o t))"
      unfolding keys [of k] by (auto split: if_splits)
    from t(3) obtain v where v: "t_o t = NamedNode v \<or> t_o t = Str v" "k \<in> set (type_keys v)"
      by (cases "t_o t") (auto simp: indexed_keys_def split: if_splits)
    from v(2) have "k = v \<or>
                   (startsWith v ''http://schema.org/'' \<and> k = ''https://'' @ drop 7 v) \<or>
                   (startsWith v ''https://schema.org/'' \<and> k = ''http://'' @ drop 8 v)"
      by (auto simp: type_keys_def split: if_splits)
    with t v(1) show "\<exists>t \<in> set st. matchUri (t_s t) s \<and> predicate_is_type (t_p t) = Inr True \<and>
               (\<exists>v. (t_o t = NamedNode v \<or> t_o t = Str v) \<and>
                  (k = v \<or>
                   (startsWith v ''http://schema.org/'' \<and> k = ''https://'' @ drop 7 v) \<or>
                   (startsWith v ''https://schema.org/'' \<and> k = ''http://'' @ drop 8 v)))"
      unfolding is_type_triple_def by blast
  }
qed

lemma findTypeURIs_both_schemes_example:
  "\<exists>m. findTypeURIs
          [Triple (NamedNode ''s'') (NamedNode RDF_TYPE) (NamedNode ''https://schema.org/Person''),
           Triple (NamedNode ''s'') (NamedNode RDF_TYPE) (Str ''urn:x'')]
          (NamedNode ''s'') = Inr m \<and>
       m ''https://schema.org/Person'' = Some True \<and> m ''http://schema.org/Person'' = Some True \<and>
       m ''urn:x'' = Some True \<and> m ''urn:y'' = None"
proof -
  let ?st = "[Triple (NamedNode ''s'') (NamedNode RDF_TYPE) (NamedNode ''https://schema.org/Person''),
              Triple (NamedNode ''s'') (NamedNode RDF_TYPE) (Str ''urn:x'')]"
  have "\<exists>m. findTypeURIs ?st (NamedNode ''s'') = Inr m"
    by (simp add: findTypeURIs_def store_eval)
  then obtain m where m: "findTypeURIs ?st (NamedNode ''s'') = Inr m" by blast
  have ty: "predicate_is_type (NamedNode RDF_TYPE) = Inr True"
    by (simp add: store_eval)
  have ma: "matchUri (NamedNode ''s'') (NamedNode ''s'')" by (rule matchUri_NamedNode_refl)
  have a: "m ''https://schema.org/Person'' = Some True \<and> m ''http://schema.org/Person'' = Some True"
    using findTypeURIs_both_schemes [OF m, of "NamedNode ''s''" "NamedNode RDF_TYPE"
        "NamedNode ''https://schema.org/Person''" "''Person''"] ty ma
    by simp
  have b: "m ''urn:x'' = Some True"
    using findTypeURIs_both_schemes [OF m, of "NamedNode ''s''" "NamedNode RDF_TYPE"
        "Str ''urn:x''" _ "''urn:x''"] ty ma
    by simp
  have c: "m ''urn:y'' = None"
    using findTypeURIs_both_schemes [OF m, of _ _ _ _ _ "''urn:y''"]
    by (auto simp: startsWith_def)
  from m a b c show ?thesis by blast
qed

section \<open>C1: the translator and exceptions\<close>

text \<open>
  C1, as stated, fails: the translator raises on the document \<open>null\<close> (it reads
  \<open>jsonld['@context']\<close> first) and on an object whose \<open>@type\<close> is an array (it calls
  \<open>startsWith\<close> on the value of \<open>@type\<close>).
\<close>

theorem translate_raises_counterexample:
  "parseJsonLdToStore JNull ''http://b/'' [] = ([], Inl TypeError) \<and>
   parseJsonLdToStore (JObj [(''@type'', JArr [JStr ''Person''])]) ''http://b/'' []
     = ([], Inl TypeError)"
  by (simp add: translator_eval)

text \<open>
  C1, amended. For every JSON value \<open>D\<close> other than \<open>null\<close> in which every \<open>@type\<close> and
  every \<open>@id\<close> is absent, falsy or a string, \<open>parseJsonLdToStore(D, baseUri, store)\<close>
  completes without raising and returns a root subject. An \<open>@context\<close> that is not a plain
  object gives the empty context, and a key that starts with \<open>@\<close> or resolves to the
  empty string is skipped without a triple and without an exception.
\<close>

theorem translate_completes:
  assumes "D \<noteq> JNull" and "plain D"
  shows "(\<exists>st' root. parseJsonLdToStore D B st = (st', Inr root)) \<and>
    ((\<forall>raw. own_prop D ''@context'' \<noteq> Some (JObj raw)) \<longrightarrow> build_context D = Inr []) \<and>
    (\<forall>rec ctx sid subject key v a.
        startsWith key ''@'' \<or> resolvePrefix key ctx = Some []
          \<longrightarrow> add_property rec ctx B sid subject (key, v) a = (a, None))"
proof (intro conjI)
  obtain ctx where ctx: "build_context D = Inr ctx"
    using build_context_ok [OF assms(1)] by blast
  obtain suffix where suffix: "id_or_thing D = Inr suffix"
    using id_or_thing_plain [OF assms(2)] by blast
  obtain st' where "addTriples ctx B D (B @ suffix) st = (st', None)"
    using addTriples_ok [OF assms, of ctx B "B @ suffix" st]
    by (cases "addTriples ctx B D (B @ suffix) st") auto
  with ctx suffix show "\<exists>st' root. parseJsonLdToStore D B st = (st', Inr root)"
    by (simp add: parseJsonLdToStore_def)
next
  show "(\<forall>raw. own_prop D ''@context'' \<noteq> Some (JObj raw)) \<longrightarrow> build_context D = Inr []"
    using assms(1)
    by (auto simp: build_context_def get_prop_def split: option.splits json.splits)
next
  show "\<forall>rec ctx sid subject key v a.
        startsWith key ''@'' \<or> resolvePrefix key ctx = Some []
          \<longrightarrow> add_property rec ctx B sid subject (key, v) a = (a, None)"
    by (auto simp: add_property_def)
qed

theorem translate_completes_witness:
  "JObj [(''@context'', JArr []), (''@type'', JStr ''Person''), (''@id'', JNum ''0''),
         (''name'', JStr ''Ada''), (''knows'', JArr [JObj [(''@id'', JStr ''http://x/1'')], JNull])] \<noteq> JNull \<and>
   plain (JObj [(''@context'', JArr []), (''@type'', JStr ''Person''), (''@id'', JNum ''0''),
         (''name'', JStr ''Ada''), (''knows'', JArr [JObj [(''@id'', JStr ''http://x/1'')], JNull])]) \<and>
   (\<exists>st' root. parseJsonLdToStore
       (JObj [(''@context'', JArr []), (''@type'', JStr ''Person''), (''@id'', JNum ''0''),
         (''name'', JStr ''Ada''), (''knows'', JArr [JObj [(''@id'', JStr ''http://x/1'')], JNull])])
       ''http://b/'' [] = (st', Inr root)) \<and>
   build_context (JObj [(''@context'', JArr []), (''@type'', JStr ''Person''), (''@id'', JNum ''0''),
         (''name'', JStr ''Ada''), (''knows'', JArr [JObj [(''@id'', JStr ''http://x/1'')], JNull])]) = Inr []"
  using translate_completes [of "JObj [(''@context'', JArr []), (''@type'', JStr ''Person''), (''@id'', JNum ''0''),
         (''name'', JStr ''Ada''), (''knows'', JArr [JObj [(''@id'', JStr ''http://x/1'')], JNull])]" "''http://b/''" "[]"]
  by simp

section \<open>C2: anyValue\<close>

text \<open>
  C2. \<open>anyValue(s, p)\<close> is to return the text of the object of the first matching triple,
  the value of a Literal with the empty string included; the comment of the function
  says "First matching object as string, or null". The code does so for every object
  with non-empty text, but for a Literal whose value is the empty string
  \<open>t.o.value || t.o.uri || null\<close> passes over the falsy value and returns \<open>null\<close>, as if
  no triple matched. The raw-scalar branch beside it returns the empty string for a raw
  empty string, and \<open>any\<close> and \<open>each\<close> return the empty Literal.
\<close>

theorem anyValue_empty_literal_is_null:
  "matchUri (sym_node ''s'') (sym_node ''s'') \<and> matchUri (sym_node ''p'') (sym_node ''p'') \<and>
   literal (Str []) = LiteralTerm [] \<and>
   anyValue (add [] (sym_node ''s'') (sym_node ''p'') (literal (Str [])))
     (sym_node ''s'') (sym_node ''p'') = Null \<and>
   anyValue (add [] (sym_node ''s'') (sym_node ''p'') (literal (Str [])))
     (sym_node ''s'') (sym_node ''p'') \<noteq> Str [] \<and>
   anyValue (add [] (sym_node ''s'') (sym_node ''p'') (Str []))
     (sym_node ''s'') (sym_node ''p'') = Str [] \<and>
   anyValue (add [] (sym_node ''s'') (sym_node ''p'') (literal (Str ''Ada'')))
     (sym_node ''s'') (sym_node ''p'') = Str ''Ada'' \<and>
   any (add [] (sym_node ''s'') (sym_node ''p'') (literal (Str [])))
     (sym_node ''s'') (sym_node ''p'') = LiteralTerm [] \<and>
   each (add [] (sym_node ''s'') (sym_node ''p'') (literal (Str [])))
     (sym_node ''s'') (sym_node ''p'') = [LiteralTerm []]"
  by (simp add: store_eval literal_def each_def)

section \<open>C3: the root subject\<close>

text \<open>
  C3, as stated, fails: the code takes \<open>jsonld['@id'] || '#thing'\<close>, so an \<open>@id\<close> equal
  to the empty string gives the root \<open>baseUri + '#thing'\<close>, not \<open>baseUri + ''\<close>.
\<close>

theorem root_empty_id_counterexample:
  "snd (parseJsonLdToStore (JObj [(''@id'', JStr [])]) ''http://b/'' [])
     = Inr (NamedNode ''http://b/#thing'') \<and>
   snd (parseJsonLdToStore (JObj [(''@id'', JStr [])]) ''http://b/'' [])
     \<noteq> Inr (NamedNode (''http://b/'' @ []))"
  by (simp add: translator_eval)

text \<open>
  C3, amended. For every document \<open>D\<close> and base URI \<open>B\<close> on which the translator returns,
  the root subject has the URI \<open>B + (D['@id'] || '#thing')\<close>: it is \<open>B + '#thing'\<close> when
  \<open>D\<close> has no \<open>@id\<close> key and when its \<open>@id\<close> is falsy (the empty string, \<open>0\<close>, \<open>false\<close>,
  \<open>null\<close>), it is \<open>B + D['@id']\<close> for a non-empty string, and \<open>B\<close> followed by the
  text of the value for any other truthy \<open>@id\<close>. The translator does return on every
  document other than \<open>null\<close> whose \<open>@type\<close> and \<open>@id\<close> values are absent, falsy or strings.
\<close>

theorem root_subject:
  "(snd (parseJsonLdToStore D B st) = Inr root \<longrightarrow>
      (own_prop D ''@id'' = None \<longrightarrow> root = NamedNode (B @ ''#thing'')) \<and>
      (\<forall>v. own_prop D ''@id'' = Some v \<and> \<not> json_truthy v \<longrightarrow> root = NamedNode (B @ ''#thing'')) \<and>
      (\<forall>x. own_prop D ''@id'' = Some (JStr x) \<and> x \<noteq> [] \<longrightarrow> root = NamedNode (B @ x)) \<and>
      (\<forall>v. own_prop D ''@id'' = Some v \<and> json_truthy v
           \<longrightarrow> (\<exists>t. json_toString v = Inr t \<and> root = NamedNode (B @ t)))) \<and>
   (D \<noteq> JNull \<and> plain D \<longrightarrow>
      (\<exists>st'. parseJsonLdToStore D B st =
         (st', Inr (NamedNode (B @ (case own_prop D ''@id'' of
                                      Some (JStr x) \<Rightarrow> if x = [] then ''#thing'' else x
                                    | _ \<Rightarrow> ''#thing''))))))"
proof (intro conjI impI)
  assume ok: "snd (parseJsonLdToStore D B st) = Inr root"
  then obtain suffix where s: "id_or_thing D = Inr suffix" "root = NamedNode (B @ suffix)"
    using parse_root by blast
  from s show "own_prop D ''@id'' = None \<Longrightarrow> root = NamedNode (B @ ''#thing'')"
    by (simp add: id_or_thing_def)
  from s show "\<forall>v. own_prop D ''@id'' = Some v \<and> \<not> json_truthy v \<longrightarrow> root = NamedNode (B @ ''#thing'')"
    by (auto simp: id_or_thing_def)
  from s show "\<forall>x. own_prop D ''@id'' = Some (JStr x) \<and> x \<noteq> [] \<longrightarrow> root = NamedNode (B @ x)"
    by (auto simp: id_or_thing_def)
  from s show "\<forall>v. own_prop D ''@id'' = Some v \<and> json_truthy v
           \<longrightarrow> (\<exists>t. json_toString v = Inr t \<and> root = NamedNode (B @ t))"
    by (auto simp: id_or_thing_def)
next
  assume pl: "D \<noteq> JNull \<and> plain D"
  obtain ctx where ctx: "build_context D = Inr ctx"
    using build_context_ok pl by blast
  let ?suffix = "case own_prop D ''@id'' of
                   Some (JStr x) \<Rightarrow> if x = [] then ''#thing'' else x
                 | _ \<Rightarrow> ''#thing''"
  have suffix: "id_or_thing D = Inr ?suffix"
    using id_or_thing_plain pl by blast
  obtain st' where "addTriples ctx B D (B @ ?suffix) st = (st', None)"
    using addTriples_ok [of D ctx B "B @ ?suffix" st] pl
    by (cases "addTriples ctx B D (B @ ?suffix) st") auto
  with ctx suffix show "\<exists>st'. parseJsonLdToStore D B st = (st', Inr (NamedNode (B @ ?suffix)))"
    by (simp add: parseJsonLdToStore_def sym_node_def)
qed

theorem root_subject_witness:
  "snd (parseJsonLdToStore (JObj [(''@id'', JStr ''#me''), (''name'', JStr ''Ada'')]) ''http://b/'' [])
     = Inr (NamedNode ''http://b/#me'') \<and>
   snd (parseJsonLdToStore (JObj [(''name'', JStr ''Ada'')]) ''http://b/'' [])
     = Inr (NamedNode ''http://b/#thing'') \<and>
   JObj [(''@id'', JBool False)] \<noteq> JNull \<and> plain (JObj [(''@id'', JBool False)]) \<and>
   (\<exists>st'. parseJsonLdToStore (JObj [(''@id'', JBool False)]) ''http://b/'' [] =
      (st', Inr (NamedNode ''http://b/#thing'')))"
  using root_subject [of "JObj [(''@id'', JStr ''#me''), (''name'', JStr ''Ada'')]" "''http://b/''" "[]" "NamedNode ''http://b/#me''"]
    root_subject [of "JObj [(''name'', JStr ''Ada'')]" "''http://b/''" "[]" "NamedNode ''http://b/#thing''"]
    root_subject [of "JObj [(''@id'', JBool False)]" "''http://b/''" "[]"]
  by (simp add: translator_eval)

section \<open>C4: keys that no context prefix matches\<close>

text \<open>
  C4, as stated, fails: the empty key does not start with \<open>@\<close> and no prefix matches it;
  \<open>resolvePrefix\<close> returns it unchanged, and the translator then drops it, since
  \<open>if (!predUri) return\<close> takes the empty string for a missing predicate.
\<close>

theorem empty_key_dropped_counterexample:
  "\<not> startsWith [] ''@'' \<and> resolvePrefix [] [] = Some [] \<and>
   parseJsonLdToStore (JObj [([], JStr ''v'')]) ''http://b/'' []
     = ([], Inr (NamedNode ''http://b/#thing''))"
  by (simp add: translator_eval)

text \<open>
  C4, amended. For every property key \<open>k\<close> not starting with \<open>@\<close> and every context \<open>C\<close>
  no prefix of which matches \<open>k\<close>, \<open>resolvePrefix(k, C)\<close> returns \<open>k\<close> unchanged, whether \<open>k\<close>
  is an absolute URI or not. When \<open>k\<close> is not empty the translator does not drop it: a
  scalar value gives exactly the triple \<open>(subject, k, value)\<close>, and the translation of a
  document that holds \<open>k\<close> with any value but the empty array ends with a triple of
  the root subject under the predicate \<open>k\<close> in the store. Keys that start with \<open>@\<close>, and
  the empty key, are skipped.
\<close>

theorem unmatched_key_kept:
  assumes "\<not> startsWith k ''@''" and "\<forall>e \<in> set C. \<not> startsWith k (fst e @ '':'')"
  shows "resolvePrefix k C = Some k \<and>
    (k \<noteq> [] \<longrightarrow>
       (\<forall>rec B sid subject v st. \<not> json_is_object v \<longrightarrow>
          add_property rec C B sid subject (k, v) st
            = (add st subject (sym_node k) (scalar_val v), None)) \<and>
       (\<forall>es v B st. (k, v) \<in> set es \<and> build_context (JObj es) = Inr C \<and> plain (JObj es) \<and> v \<noteq> JArr []
          \<longrightarrow> (\<exists>st' root. parseJsonLdToStore (JObj es) B st = (st', Inr root) \<and>
                 (\<exists>t \<in> set st'. t_s t = root \<and> t_p t = NamedNode k)))) \<and>
    (\<forall>key rec B sid subject v st. startsWith key ''@'' \<or> key = []
       \<longrightarrow> add_property rec C B sid subject (key, v) st = (st, None))"
proof (intro conjI impI allI)
  show r: "resolvePrefix k C = Some k"
    using assms by (simp add: resolvePrefix_def resolve_loop_unmatched)
  show "add_property rec B C' sid subject (key, v) st = (st, None)"
    if "startsWith key ''@'' \<or> key = []" for rec B C' sid subject key v st
    using that resolve_loop_unmatched [of B "[]"]
    by (auto simp: add_property_def resolvePrefix_def startsWith_def)
  show "add_property rec C B sid subject (k, v) st = (add st subject (sym_node k) (scalar_val v), None)"
    if "k \<noteq> []" "\<not> json_is_object v" for rec B sid subject v st
    using that assms(1) r by (cases v) (auto simp: add_property_def)
  show "\<exists>st' root. parseJsonLdToStore (JObj es) B st = (st', Inr root) \<and>
                 (\<exists>t \<in> set st'. t_s t = root \<and> t_p t = NamedNode k)"
    if "k \<noteq> []" "(k, v) \<in> set es \<and> build_context (JObj es) = Inr C \<and> plain (JObj es) \<and> v \<noteq> JArr []"
    for es v B st
    using that assms(1) r by (intro translate_emits [of k C k v es]) auto
qed

theorem unmatched_key_kept_witness:
  "\<not> startsWith ''foaf:name'' ''@'' \<and>
   \<not> startsWith ''foaf:name'' (''schema'' @ '':'') \<and>
   resolvePrefix ''foaf:name'' [(''schema'', ''http://schema.org/'')] = Some ''foaf:name'' \<and>
   ''foaf:name'' \<noteq> [] \<and> \<not> json_is_object (JStr ''Ada'') \<and>
   add_property (\<lambda>v sid st. (st, None)) [(''schema'', ''http://schema.org/'')] ''http://b/'' ''http://b/#thing''
       (NamedNode ''http://b/#thing'') (''foaf:name'', JStr ''Ada'') []
     = ([Triple (NamedNode ''http://b/#thing'') (NamedNode ''foaf:name'') (Str ''Ada'')], None) \<and>
   (''foaf:name'', JStr ''Ada'') \<in> set [(''@context'', JObj [(''schema'', JStr ''http://schema.org/'')]), (''foaf:name'', JStr ''Ada'')] \<and>
   build_context (JObj [(''@context'', JObj [(''schema'', JStr ''http://schema.org/'')]), (''foaf:name'', JStr ''Ada'')])
     = Inr [(''schema'', ''http://schema.org/'')] \<and>
   plain (JObj [(''@context'', JObj [(''schema'', JStr ''http://schema.org/'')]), (''foaf:name'', JStr ''Ada'')]) \<and>
   JStr ''Ada'' \<noteq> JArr [] \<and>
   (\<exists>st' root. parseJsonLdToStore (JObj [(''@context'', JObj [(''schema'', JStr ''http://schema.org/'')]), (''foaf:name'', JStr ''Ada'')]) ''http://b/'' [] = (st', Inr root) \<and>
        (\<exists>t \<in> set st'. t_s t = root \<and> t_p t = NamedNode ''foaf:name'')) \<and>
   add_property (\<lambda>v sid st. (st, None)) [(''schema'', ''http://schema.org/'')] ''http://b/'' ''http://b/#thing''
       (NamedNode ''http://b/#thing'') (''@id'', JStr ''x'') [] = ([], None)"
proof -
  have h1: "\<not> startsWith ''foaf:name'' ''@''" by (simp add: startsWith_def)
  have h2: "\<forall>e \<in> set [(''schema'', ''http://schema.org/'')]. \<not> startsWith ''foaf:name'' (fst e @ '':'')"
    by (simp add: startsWith_def)
  have ctx: "build_context (JObj [(''@context'', JObj [(''schema'', JStr ''http://schema.org/'')]), (''foaf:name'', JStr ''Ada'')])
     = Inr [(''schema'', ''http://schema.org/'')]"
    by (simp add: translator_eval)
  show ?thesis
    using unmatched_key_kept [OF h1 h2] h1 h2 ctx
    by (simp add: add_def sym_node_def startsWith_def)
qed

section \<open>C5: the type index and the two schemes\<close>

text \<open>
  C5. For a store that holds a triple \<open>(s, rdf:type, o)\<close> with the URI of \<open>o\<close> under
  \<open>schema.org\<close>, \<open>findTypeURIs(s)\<close> is to return a mapping with that URI and its
  cross-scheme counterpart; the comment of the function says "All rdf:type URIs for
  subject". The code builds that index (lemma \<open>findTypeURIs_both_schemes\<close>), but it does not
  return it on every such store: it tests \<open>typeof t.o === 'object'\<close> without the
  \<open>t.o !== null\<close> that \<open>anyValue\<close>, \<open>any\<close> and \<open>each\<close> have, so another type triple of the
  subject with the object \<open>null\<close> makes the call raise on \<open>null.uri\<close>. The document
  \<open>{ "@type": "http://schema.org/Person", "http://www.w3.org/1999/02/22-rdf-syntax-ns#type": null }\<close>
  gives such a store; without the \<open>null\<close> triple the mapping holds both schemes.
\<close>

theorem findTypeURIs_raises_on_null_object:
  "fst (parseJsonLdToStore
          (JObj [(''@type'', JStr ''http://schema.org/Person''),
                 (''http://www.w3.org/1999/02/22-rdf-syntax-ns#type'', JNull)]) ''http://b/'' [])
     = [Triple (NamedNode ''http://b/#thing'') (NamedNode RDF_TYPE) (NamedNode ''http://schema.org/Person''),
        Triple (NamedNode ''http://b/#thing'') (NamedNode RDF_TYPE) Null] \<and>
   findTypeURIs
     [Triple (NamedNode ''http://b/#thing'') (NamedNode RDF_TYPE) (NamedNode ''http://schema.org/Person''),
      Triple (NamedNode ''http://b/#thing'') (NamedNode RDF_TYPE) Null]
     (NamedNode ''http://b/#thing'') = Inl TypeError \<and>
   findTypeURIs
     [Triple (NamedNode ''http://b/#thing'') (NamedNode RDF_TYPE) (NamedNode ''http://schema.org/Person'')]
     (NamedNode ''http://b/#thing'')
     = Inr [''http://schema.org/Person'' \<mapsto> True, ''https://schema.org/Person'' \<mapsto> True]"
  by (simp add: translator_eval findTypeURIs_def store_eval)

section \<open>C6: the two schemes in comparisons\<close>

text \<open>
  C6. The comparison is to treat \<open>http://schema.org/X\<close> and \<open>https://schema.org/X\<close> as equal
  for every \<open>X\<close> (the comment of \<open>normalize\<close> says so), and it does when \<open>X\<close> does not
  itself contain \<open>https://schema.org/\<close> (lemma \<open>matchUri_schemes\<close>); the store keeps the
  triples as inserted (lemmas \<open>add_keeps_store\<close> and \<open>addTriples_extends\<close>). But \<open>normalize\<close>
  replaces the first occurrence of \<open>https://schema.org/\<close> wherever it is, not a leading
  one: for \<open>X = https://schema.org/name\<close> the two URIs normalise to different strings,
  and a query under one scheme does not find the triple stored under the other: the
  document \<open>{ "http://schema.org/https://schema.org/name": "v" }\<close> gives a triple that the
  predicate \<open>https://schema.org/https://schema.org/name\<close> does not match.
\<close>

theorem scheme_equivalence_fails:
  "\<not> matchUri (sym_node ''http://schema.org/https://schema.org/name'')
               (sym_node ''https://schema.org/https://schema.org/name'') \<and>
   parseJsonLdToStore (JObj [(''http://schema.org/https://schema.org/name'', JStr ''v'')]) ''http://b/'' []
     = ([Triple (NamedNode ''http://b/#thing'') (NamedNode ''http://schema.org/https://schema.org/name'')
           (Str ''v'')],
        Inr (NamedNode ''http://b/#thing'')) \<and>
   anyValue [Triple (NamedNode ''http://b/#thing'') (NamedNode ''http://schema.org/https://schema.org/name'')
               (Str ''v'')]
     (NamedNode ''http://b/#thing'') (sym_node ''http://schema.org/https://schema.org/name'') = Str ''v'' \<and>
   anyValue [Triple (NamedNode ''http://b/#thing'') (NamedNode ''http://schema.org/https://schema.org/name'')
               (Str ''v'')]
     (NamedNode ''http://b/#thing'') (sym_node ''https://schema.org/https://schema.org/name'') = Null \<and>
   any [Triple (NamedNode ''http://b/#thing'') (NamedNode ''http://schema.org/https://schema.org/name'')
          (Str ''v'')]
     (NamedNode ''http://b/#thing'') (sym_node ''https://schema.org/https://schema.org/name'') = Null \<and>
   each [Triple (NamedNode ''http://b/#thing'') (NamedNode ''http://schema.org/https://schema.org/name'')
           (Str ''v'')]
     (NamedNode ''http://b/#thing'') (sym_node ''https://schema.org/https://schema.org/name'') = [] \<and>
   findTypeURIs
     (add [] (sym_node ''http://schema.org/https://schema.org/Person'') (sym_node RDF_TYPE) (Str ''T''))
     (sym_node ''http://schema.org/https://schema.org/Person'') = Inr [''T'' \<mapsto> True] \<and>
   findTypeURIs
     (add [] (sym_node ''http://schema.org/https://schema.org/Person'') (sym_node RDF_TYPE) (Str ''T''))
     (sym_node ''https://schema.org/https://schema.org/Person'') = Inr Map.empty"
  by (simp add: translator_eval findTypeURIs_def store_eval each_def)

section \<open>C7: reference and embedding\<close>




section \<open>C8: each\<close>

text \<open>
  C8, as stated, fails: \<open>each\<close> leaves out a matching triple whose object is \<open>null\<close> (the
  guard \<open>t.o != null\<close>), so it does not return all matching objects. The translator
  stores such objects: for \<open>{ "k": [null, "a"] }\<close> two triples match and \<open>each\<close> returns one
  term.
\<close>

theorem each_null_counterexample:
  "matchUri (NamedNode ''s'') (NamedNode ''s'') \<and> matchUri (NamedNode ''p'') (NamedNode ''p'') \<and>
   each [Triple (NamedNode ''s'') (NamedNode ''p'') Null] (NamedNode ''s'') (NamedNode ''p'') = [] \<and>
   fst (parseJsonLdToStore (JObj [(''k'', JArr [JNull, JStr ''a''])]) ''http://b/'' [])
     = [Triple (NamedNode ''http://b/#thing'') (NamedNode ''k'') Null,
        Triple (NamedNode ''http://b/#thing'') (NamedNode ''k'') (Str ''a'')] \<and>
   each [Triple (NamedNode ''http://b/#thing'') (NamedNode ''k'') Null,
         Triple (NamedNode ''http://b/#thing'') (NamedNode ''k'') (Str ''a'')]
        (NamedNode ''http://b/#thing'') (NamedNode ''k'') = [LiteralTerm ''a'']"
  by (simp add: translator_eval each_def matchUri_NamedNode_refl)

text \<open>
  C8, amended. For every store, \<open>each(s, p)\<close> returns, in insertion order, the objects of
  the matching triples other than \<open>null\<close> and \<open>undefined\<close>, a term as it is and a raw
  scalar wrapped as a Literal of its text. In particular, for a document whose one
  property maps to a non-empty predicate \<open>P\<close> and has an array of strings as value, as
  \<open>["a","b","c"]\<close>, \<open>each(rootSubject, P)\<close> returns exactly the Literals of those strings in
  that order.
\<close>

theorem each_in_insertion_order:
  "each st s p =
     map (\<lambda>ob. if is_object ob then ob else LiteralTerm (js_String ob))
       (filter (\<lambda>ob. ob \<noteq> Null \<and> ob \<noteq> Undefined)
          (map t_o (filter (\<lambda>t. matchUri (t_s t) s \<and> matchUri (t_p t) p) st))) \<and>
   (\<not> startsWith key ''@'' \<and>
    build_context (JObj [(''@context'', cx), (key, JArr (map JStr xs))]) = Inr ctx \<and>
    resolvePrefix key ctx = Some P \<and> P \<noteq> []
      \<longrightarrow> (\<exists>st' root.
             parseJsonLdToStore (JObj [(''@context'', cx), (key, JArr (map JStr xs))]) B [] = (st', Inr root) \<and>
             each st' root (NamedNode P) = map LiteralTerm xs))"
proof (intro conjI impI)
  show "each st s p =
     map (\<lambda>ob. if is_object ob then ob else LiteralTerm (js_String ob))
       (filter (\<lambda>ob. ob \<noteq> Null \<and> ob \<noteq> Undefined)
          (map t_o (filter (\<lambda>t. matchUri (t_s t) s \<and> matchUri (t_p t) p) st)))"
    unfolding each_filter by (rule map_cong) (auto simp: object_node_def)
next
  let ?D = "JObj [(''@context'', cx), (key, JArr (map JStr xs))]"
  assume a: "\<not> startsWith key ''@'' \<and> build_context ?D = Inr ctx \<and>
    resolvePrefix key ctx = Some P \<and> P \<noteq> []"
  then have key: "key \<noteq> ''@context''" "key \<noteq> ''@id''" "key \<noteq> ''@type''"
    by (auto simp: startsWith_def)
  have "parseJsonLdToStore ?D B [] =
      (map (\<lambda>x. Triple (NamedNode (B @ ''#thing'')) (NamedNode P) (Str x)) xs,
       Inr (NamedNode (B @ ''#thing'')))"
    using a key
    by (simp add: parseJsonLdToStore_def id_or_thing_def addTriples.simps [of ctx B ?D]
        addType_def get_prop_def add_property_def forEach_add_item_strings sym_node_def
        startsWith_def Let_def)
  then show "\<exists>st' root. parseJsonLdToStore ?D B [] = (st', Inr root) \<and>
             each st' root (NamedNode P) = map LiteralTerm xs"
    by (simp add: each_strings)
qed

theorem each_in_insertion_order_witness:
  "\<not> startsWith ''ex:items'' ''@'' \<and>
   build_context (JObj [(''@context'', JObj [(''ex'', JStr ''http://example.org/'')]),
                        (''ex:items'', JArr (map JStr [''a'', ''b'', ''c'']))])
     = Inr [(''ex'', ''http://example.org/'')] \<and>
   resolvePrefix ''ex:items'' [(''ex'', ''http://example.org/'')] = Some ''http://example.org/items'' \<and>
   ''http://example.org/items'' \<noteq> [] \<and>
   (\<exists>st' root.
      parseJsonLdToStore (JObj [(''@context'', JObj [(''ex'', JStr ''http://example.org/'')]),
                                (''ex:items'', JArr [JStr ''a'', JStr ''b'', JStr ''c''])]) ''http://b/'' []
        = (st', Inr root) \<and>
      each st' root (NamedNode ''http://example.org/items'')
        = [LiteralTerm ''a'', LiteralTerm ''b'', LiteralTerm ''c''])"
proof -
  have h1: "\<not> startsWith ''ex:items'' ''@''" by (simp add: startsWith_def)
  have h2: "build_context (JObj [(''@context'', JObj [(''ex'', JStr ''http://example.org/'')]),
                        (''ex:items'', JArr (map JStr [''a'', ''b'', ''c'']))])
     = Inr [(''ex'', ''http://example.org/'')]"
    by (simp add: translator_eval)
  have h3: "resolvePrefix ''ex:items'' [(''ex'', ''http://example.org/'')] = Some ''http://example.org/items''"
    by (simp add: translator_eval)
  show ?thesis
    using each_in_insertion_order [of "[]" Null Null "''ex:items''"
        "JObj [(''ex'', JStr ''http://example.org/'')]"
        "[''a'', ''b'', ''c'']" "[(''ex'', ''http://example.org/'')]" "''http://example.org/items''"
        "''http://b/''", THEN conjunct2]
      h1 h2 h3
    by simp
qed

section \<open>C9: a falsy identifier\<close>



section \<open>C10: the type index is not total\<close>

text \<open>
  C10. Some document translates without an exception into a store that holds a triple
  with the predicate \<open>rdf:type\<close> and the object \<open>null\<close>, and \<open>findTypeURIs\<close> on the root
  subject of that store raises a \<open>TypeError\<close> instead of returning a mapping: it reads the
  \<open>uri\<close> of the object after testing only \<open>typeof t.o === 'object'\<close>, which \<open>null\<close> passes.
  The document is \<open>{ "http://www.w3.org/1999/02/22-rdf-syntax-ns#type": null }\<close>.
\<close>

theorem findTypeURIs_not_total:
  "\<exists>D B st root.
     parseJsonLdToStore D B [] = (st, Inr root) \<and>
     Triple root (NamedNode RDF_TYPE) Null \<in> set st \<and>
     findTypeURIs st root = Inl TypeError"
proof (intro exI conjI)
  show "parseJsonLdToStore
          (JObj [(''http://www.w3.org/1999/02/22-rdf-syntax-ns#type'', JNull)]) ''http://b/'' []
      = ([Triple (NamedNode ''http://b/#thing'')
            (NamedNode ''http://www.w3.org/1999/02/22-rdf-syntax-ns#type'') Null],
         Inr (NamedNode ''http://b/#thing''))"
    by (simp add: translator_eval)
  show "Triple (NamedNode ''http://b/#thing'') (NamedNode RDF_TYPE) Null
      \<in> set [Triple (NamedNode ''http://b/#thing'')
            (NamedNode ''http://www.w3.org/1999/02/22-rdf-syntax-ns#type'') Null]"
    by (simp add: RDF_TYPE_def)
  show "findTypeURIs
          [Triple (NamedNode ''http://b/#thing'')
            (NamedNode ''http://www.w3.org/1999/02/22-rdf-syntax-ns#type'') Null]
          (NamedNode ''http://b/#thing'')
      = Inl TypeError"
    by (simp add: findTypeURIs_def store_eval)
qed

end
